theory Spec2Isabelle
  imports Complex_Main "HOL-Library.Word"
begin

unbundle bit_operations_syntax

section \<open>JavaScript arrays and numbers\<close>

text \<open>
  Bytes are the elements of a \<open>Uint8Array\<close>: storing a number keeps it modulo 256, which
  is the arithmetic of \<open>8 word\<close>. Indices are JavaScript numbers and can be negative
  before they are wrapped, so they are integers here.

  Reading a typed array outside its bounds gives \<open>undefined\<close>. Wherever the source can
  do that, the value is masked with \<open>& 0xFF\<close>, shifted, or-ed or stored into another
  typed array, all of which turn \<open>undefined\<close> into 0, or it is looked up in the table
  of instructions, where \<open>undefined\<close> is no instruction, as 0 is none. So a read
  outside the bounds is 0 here. Writing outside the bounds does nothing.

  The source divides by sizes, widths and alignments. A division by zero, which gives
  \<open>Infinity\<close> or \<open>NaN\<close> in JavaScript, is not modelled: a theorem that depends on such a
  division assumes that the divisor is positive.
\<close>

type_synonym byte = "8 word"

definition rd :: "byte list \<Rightarrow> int \<Rightarrow> byte" where
  "rd xs k = (if 0 \<le> k \<and> k < int (length xs) then xs ! nat k else 0)"

definition wr :: "byte list \<Rightarrow> int \<Rightarrow> byte \<Rightarrow> byte list" where
  "wr xs k v = (if 0 \<le> k \<and> k < int (length xs) then xs[nat k := v] else xs)"

text \<open>JavaScript's \<open>%\<close> takes the sign of the dividend (the divisor here is a size).\<close>

definition js_rem :: "int \<Rightarrow> int \<Rightarrow> int" where
  "js_rem a n = (if a < 0 then - ((- a) mod n) else a mod n)"

text \<open>\<open>for (let i = 0; i < n; i++) body\<close>, on the state the body changes.\<close>

definition for_loop :: "nat \<Rightarrow> (nat \<Rightarrow> 'a \<Rightarrow> 'a) \<Rightarrow> 'a \<Rightarrow> 'a" where
  "for_loop n body s = fold body [0..<n] s"

text \<open>\<open>TypedArray.prototype.slice(begin, end)\<close>, negative arguments counting from the end.\<close>

definition js_slice :: "byte list \<Rightarrow> int \<Rightarrow> int \<Rightarrow> byte list" where
  "js_slice xs b e =
     (let len = int (length xs);
          k = (if b < 0 then max (len + b) 0 else min b len);
          final = (if e < 0 then max (len + e) 0 else min e len)
      in take (nat (final - k)) (drop (nat k) xs))"

section \<open>Tape (tape.js)\<close>

text \<open>
  A \<open>Tape\<close> holds a \<open>Uint8Array\<close> called \<open>data\<close> and the field \<open>size\<close>, which the
  constructor sets to the length of \<open>data\<close> and which is never assigned again. The model
  is the array itself; \<open>size\<close> is its length, and \<open>toArray()\<close> is the identity.
\<close>

type_synonym Tape = "byte list"

definition size_tape :: "Tape \<Rightarrow> int" where
  "size_tape t = int (length t)"

text \<open>\<open>_wrap(index)\<close>: \<open>((index % this.size) + this.size) % this.size\<close>.\<close>

definition wrap :: "Tape \<Rightarrow> int \<Rightarrow> int" where
  "wrap t index = js_rem (js_rem index (size_tape t) + size_tape t) (size_tape t)"

definition get :: "Tape \<Rightarrow> int \<Rightarrow> byte" where
  "get t index = rd t (wrap t index)"

definition set_tape :: "Tape \<Rightarrow> int \<Rightarrow> byte \<Rightarrow> Tape" where
  "set_tape t index v = wr t (wrap t index) v"

definition increment :: "Tape \<Rightarrow> int \<Rightarrow> Tape" where
  "increment t index = (let i = wrap t index in wr t i (rd t i + 1))"

definition decrement :: "Tape \<Rightarrow> int \<Rightarrow> Tape" where
  "decrement t index = (let i = wrap t index in wr t i (rd t i - 1))"

text \<open>\<open>new Tape(size)\<close>: a zero-filled array.\<close>

definition new_Tape :: "nat \<Rightarrow> Tape" where
  "new_Tape n = replicate n 0"

section \<open>BFF interpreter (bff.js)\<close>

definition BFF_INSTRUCTIONS :: "(char \<times> byte) list" where
  "BFF_INSTRUCTIONS =
     [(CHR ''<'', 0x3C), (CHR ''>'', 0x3E), (CHR ''{'', 0x7B), (CHR ''}'', 0x7D),
      (CHR ''-'', 0x2D), (CHR ''+'', 0x2B), (CHR ''.'', 0x2E), (CHR '','', 0x2C),
      (CHR ''['', 0x5B), (CHR '']'', 0x5D)]"

text \<open>The reverse table, filled by one assignment per entry of \<open>BFF_INSTRUCTIONS\<close>.\<close>

definition BYTE_TO_INSTRUCTION :: "byte \<rightharpoonup> char" where
  "BYTE_TO_INSTRUCTION = fold (\<lambda>(c, b) m. m(b \<mapsto> c)) BFF_INSTRUCTIONS Map.empty"

definition byteToInstruction :: "byte \<Rightarrow> char option" where
  "byteToInstruction b = BYTE_TO_INSTRUCTION b"

definition MAX_STEPS :: nat where
  "MAX_STEPS = 8192"

datatype HaltReason = max_steps | end_of_tape | unmatched_bracket | no_instructions

record BFFInterpreter =
  tape :: Tape
  ip :: int
  head0 :: int
  head1 :: int
  stepCount :: nat
  writeCount :: nat
  loopJumps :: nat
  halted :: bool
  haltReason :: "HaltReason option"

text \<open>The constructor stores the tape and calls \<open>reset()\<close>.\<close>

definition reset :: "BFFInterpreter \<Rightarrow> BFFInterpreter" where
  "reset s = s\<lparr>ip := 0, head0 := 0, head1 := 0, stepCount := 0, writeCount := 0,
               loopJumps := 0, halted := False, haltReason := None\<rparr>"

definition new_BFFInterpreter :: "Tape \<Rightarrow> BFFInterpreter" where
  "new_BFFInterpreter t =
     reset \<lparr>tape = t, ip = 0, head0 = 0, head1 = 0, stepCount = 0, writeCount = 0,
            loopJumps = 0, halted = False, haltReason = None\<rparr>"

text \<open>\<open>_wrapHead(index)\<close>, the same expression as \<open>Tape._wrap\<close> on \<open>this.tape.size\<close>.\<close>

definition wrapHead :: "BFFInterpreter \<Rightarrow> int \<Rightarrow> int" where
  "wrapHead s index =
     js_rem (js_rem index (size_tape (tape s)) + size_tape (tape s)) (size_tape (tape s))"

text \<open>
  \<open>_findMatchingBracket(start, direction)\<close> is called with direction \<open>1\<close> and \<open>-1\<close>
  only; the two values are the constructors of \<open>Direction\<close> and \<open>delta\<close> gives the number
  back. \<open>scan\<close> is the body of the \<open>while (true)\<close> loop, with the loop variables
  \<open>depth\<close> and \<open>pos\<close> as arguments; \<open>-1\<close> is the source's "not found".
\<close>

datatype Direction = Forward | Backward

fun delta :: "Direction \<Rightarrow> int" where
  "delta Forward = 1"
| "delta Backward = - 1"

definition openBracket :: byte where
  "openBracket = 0x5B"

definition closeBracket :: byte where
  "closeBracket = 0x5D"

definition scan_depth :: "Direction \<Rightarrow> byte \<Rightarrow> int \<Rightarrow> int" where
  "scan_depth d b depth =
     (if d = Forward
      then (if b = openBracket then depth + 1
            else if b = closeBracket then depth - 1 else depth)
      else (if b = closeBracket then depth + 1
            else if b = openBracket then depth - 1 else depth))"

function scan :: "Tape \<Rightarrow> Direction \<Rightarrow> int \<Rightarrow> int \<Rightarrow> int" where
  "scan t d depth pos =
     (if pos + delta d < 0 \<or> pos + delta d \<ge> size_tape t then - 1
      else if scan_depth d (get t (pos + delta d)) depth = 0 then pos + delta d
      else scan t d (scan_depth d (get t (pos + delta d)) depth) (pos + delta d))"
  by pat_completeness auto
termination
  by (relation "measure (\<lambda>(t, d, depth, pos).
        case d of Forward \<Rightarrow> nat (size_tape t - pos) | Backward \<Rightarrow> nat (pos + 1))")
     (auto split: Direction.splits)

declare scan.simps [simp del]

definition findMatchingBracket :: "Tape \<Rightarrow> int \<Rightarrow> Direction \<Rightarrow> int" where
  "findMatchingBracket t start d = scan t d 1 start"

text \<open>The no-op branch: \<open>this.ip++\<close>, then the end-of-tape test.\<close>

definition advance :: "BFFInterpreter \<Rightarrow> BFFInterpreter" where
  "advance s =
     (let s' = s\<lparr>ip := ip s + 1\<rparr>
      in if ip s' \<ge> size_tape (tape s')
         then s'\<lparr>halted := True, haltReason := Some end_of_tape\<rparr> else s')"

text \<open>The end of \<open>step()\<close>: "Advance IP (unless halted)".\<close>

definition advance_unless_halted :: "BFFInterpreter \<Rightarrow> BFFInterpreter" where
  "advance_unless_halted s = (if \<not> halted s then advance s else s)"

definition halt_unmatched :: "BFFInterpreter \<Rightarrow> BFFInterpreter" where
  "halt_unmatched s = s\<lparr>halted := True, haltReason := Some unmatched_bracket\<rparr>"

text \<open>The \<open>switch (instruction)\<close> of \<open>step()\<close>, each case up to its \<open>break\<close> or early
  return, followed by the end of \<open>step()\<close> where the case reaches it.\<close>

definition exec :: "char \<Rightarrow> BFFInterpreter \<Rightarrow> BFFInterpreter" where
  "exec c s =
     (if c = CHR ''<'' then advance_unless_halted (s\<lparr>head0 := wrapHead s (head0 s - 1)\<rparr>)
      else if c = CHR ''>'' then advance_unless_halted (s\<lparr>head0 := wrapHead s (head0 s + 1)\<rparr>)
      else if c = CHR ''{'' then advance_unless_halted (s\<lparr>head1 := wrapHead s (head1 s - 1)\<rparr>)
      else if c = CHR ''}'' then advance_unless_halted (s\<lparr>head1 := wrapHead s (head1 s + 1)\<rparr>)
      else if c = CHR ''-'' then
        advance_unless_halted
          (s\<lparr>tape := decrement (tape s) (head0 s), writeCount := writeCount s + 1\<rparr>)
      else if c = CHR ''+'' then
        advance_unless_halted
          (s\<lparr>tape := increment (tape s) (head0 s), writeCount := writeCount s + 1\<rparr>)
      else if c = CHR ''.'' then
        advance_unless_halted
          (s\<lparr>tape := set_tape (tape s) (head1 s) (get (tape s) (head0 s)),
             writeCount := writeCount s + 1\<rparr>)
      else if c = CHR '','' then
        advance_unless_halted
          (s\<lparr>tape := set_tape (tape s) (head0 s) (get (tape s) (head1 s)),
             writeCount := writeCount s + 1\<rparr>)
      else if c = CHR ''['' then
        (if get (tape s) (head0 s) = 0
         then (let target = findMatchingBracket (tape s) (ip s) Forward
               in if target = - 1 then halt_unmatched s
                  else advance_unless_halted (s\<lparr>ip := target\<rparr>))
         else advance_unless_halted s)
      else if c = CHR '']'' then
        (if get (tape s) (head0 s) \<noteq> 0
         then (let target = findMatchingBracket (tape s) (ip s) Backward
               in if target = - 1 then halt_unmatched s
                  else advance_unless_halted (s\<lparr>ip := target, loopJumps := loopJumps s + 1\<rparr>))
         else advance_unless_halted s)
      else advance_unless_halted s)"

definition step :: "BFFInterpreter \<Rightarrow> BFFInterpreter" where
  "step s =
     (if halted s then s
      else if stepCount s \<ge> MAX_STEPS
      then s\<lparr>halted := True, haltReason := Some max_steps\<rparr>
      else (case byteToInstruction (get (tape s) (ip s)) of
              None \<Rightarrow> advance (s\<lparr>stepCount := stepCount s + 1\<rparr>)
            | Some c \<Rightarrow> exec c (s\<lparr>stepCount := stepCount s + 1\<rparr>)))"

text \<open>
  \<open>run()\<close>, and the loop of \<open>Population.runPair\<close>: \<open>while (!this.halted) this.step()\<close>.
  Every call of \<open>step\<close> on a running interpreter halts it or uses up one of the
  \<open>MAX_STEPS\<close> steps; \<open>steps_left\<close> counts the calls that can still follow.
\<close>

definition steps_left :: "BFFInterpreter \<Rightarrow> nat" where
  "steps_left s = (if halted s then 0 else 1 + (MAX_STEPS - stepCount s))"

function run :: "BFFInterpreter \<Rightarrow> BFFInterpreter" where
  "run s = (if halted s then s else run (step s))"
  by pat_completeness auto
termination
proof (relation "measure steps_left")
  show "wf (measure steps_left)"
    by simp
next
  fix s :: BFFInterpreter
  assume running: "\<not> halted s"
  have count: "stepCount (advance_unless_halted u) = stepCount u"
    and count': "stepCount (advance u) = stepCount u" for u
    by (simp_all add: advance_unless_halted_def advance_def Let_def)
  have "stepCount (exec c u) = stepCount u" for c u
    by (simp add: exec_def count halt_unmatched_def Let_def)
  then have "stepCount s < MAX_STEPS \<Longrightarrow> stepCount (step s) = stepCount s + 1"
    using running by (simp add: step_def count' split: option.splits)
  moreover have "stepCount s \<ge> MAX_STEPS \<Longrightarrow> halted (step s)"
    using running by (simp add: step_def)
  ultimately have "steps_left (step s) < steps_left s"
    using running unfolding steps_left_def
    by (cases "stepCount s < MAX_STEPS"; cases "halted (step s)") simp_all
  then show "(step s, s) \<in> measure steps_left"
    by simp
qed

declare run.simps [simp del]

section \<open>Random numbers\<close>

text \<open>
  \<open>Math.random()\<close> returns a double of \<open>[0, 1)\<close>. Every such double is \<open>m / 2 ^ e\<close> for
  natural numbers \<open>m < 2 ^ 53\<close> (the 53 bits of a significand), \<open>m < 2 ^ e\<close> (it is below
  1) and \<open>e \<le> 1074\<close> (the smallest subnormal is \<open>2 ^ - 1074\<close>); a draw is such a pair. The
  draws made during a call are an argument of the model, taken from the front of a list
  in the order of the calls; a function that needs more draws than the list holds
  returns \<open>None\<close>. So the list also bounds how often a \<open>do ... while\<close> loop that draws
  again can repeat.
\<close>

record Draw =
  mant :: nat
  expo :: nat

type_synonym draws = "Draw list"

definition draw :: "nat \<Rightarrow> nat \<Rightarrow> Draw" where
  "draw m e = \<lparr>mant = m, expo = e\<rparr>"

text \<open>The number that a draw is, as \<open>Math.random() < this.mutationRate\<close> compares it.\<close>

definition value_of :: "Draw \<Rightarrow> real" where
  "value_of d = real (mant d) / 2 ^ expo d"

definition double01 :: "Draw \<Rightarrow> bool" where
  "double01 d \<longleftrightarrow> mant d < 2 ^ 53 \<and> mant d < 2 ^ expo d \<and> expo d \<le> 1074"

definition unit_interval :: "draws \<Rightarrow> bool" where
  "unit_interval rs = list_all double01 rs"

text \<open>
  \<open>Math.random() * n\<close> for an integer \<open>n\<close> that is a double itself (\<open>|n| \<le> 2 ^ 53\<close>) is a
  multiplication of doubles: the exact product \<open>m * |n| / 2 ^ e\<close> rounded to 53
  significant bits, to the nearest such number and to the even one of two nearest. The
  product is below \<open>2 ^ 53\<close> and a multiple of \<open>2 ^ - 1074\<close>, so it neither overflows nor
  meets the coarser grid of the subnormal numbers. \<open>bits M\<close> is the number of binary
  digits of \<open>M\<close>, and \<open>round_even M s\<close> is \<open>M / 2 ^ s\<close> rounded to an integer.

  The other numbers of the selection, lengths, sizes, starts and positions, are integers.
  Below \<open>2 ^ 53\<close> they are doubles, their sums, differences and products are exact, and
  the rounding of a quotient of two of them does not reach the next integer, so that
  \<open>Math.floor\<close> of the quotient is the floor of the exact quotient, as it is written here.
\<close>

fun bits :: "nat \<Rightarrow> nat" where
  "bits n = (if n = 0 then 0 else Suc (bits (n div 2)))"

declare bits.simps [simp del]

definition round_even :: "nat \<Rightarrow> nat \<Rightarrow> nat" where
  "round_even M s =
     (let q = M div 2 ^ s;
          rest = M mod 2 ^ s
      in if 2 * rest > 2 ^ s \<or> (2 * rest = 2 ^ s \<and> odd q) then q + 1 else q)"

definition random_times :: "Draw \<Rightarrow> int \<Rightarrow> real" where
  "random_times d n =
     (let M = mant d * nat \<bar>n\<bar>;
          s = bits M - 53
      in of_int (sgn n) * real (round_even M s * 2 ^ s) / 2 ^ expo d)"

section \<open>Population (population.js)\<close>

text \<open>
  The fields that \<open>Population\<close> and \<open>PopulationWasm\<close> both have are the record
  \<open>Soup\<close>, which each class extends with its own. Fields that only feed the display
  (histories, moving averages, the floating-point \<open>generation\<close>) are left out. A pair
  \<open>{a, b}\<close> is a pair of integers.
\<close>

type_synonym Pair = "int \<times> int"

record Soup =
  width :: nat
  height :: nat
  regionSize :: nat
  soup :: "byte list"
  pairsPerStep :: nat
  currentPairs :: "Pair list"
  mutationRate :: real
  pairCount :: nat
  numTapes :: nat

record Population = Soup +
  neighborsPerSide :: nat

text \<open>What \<open>runPair\<close> returns; the early return has no \<open>writes\<close> and no \<open>loopJumps\<close>.\<close>

record RunResult =
  steps :: nat
  reason :: "HaltReason option"
  writes :: "nat option"
  jumps :: "nat option"

text \<open>A count as its readers take it: \<open>r.loopJumps || 0\<close>.\<close>

definition or0 :: "nat option \<Rightarrow> nat" where
  "or0 x = (case x of None \<Rightarrow> 0 | Some n \<Rightarrow> n)"

definition getNeighborRows :: "Population \<Rightarrow> int \<Rightarrow> byte list list \<times> byte list list" where
  "getNeighborRows p slot =
     (let row = slot div int (width p);
          rowAbove = (\<lambda>i. js_rem ((row - int i) + int (height p)) (int (height p)));
          rowBelow = (\<lambda>i. js_rem (row + int i) (int (height p)))
      in (map (\<lambda>i. js_slice (soup p) (rowAbove i * int (width p))
                              ((rowAbove i + 1) * int (width p)))
              [1..<neighborsPerSide p + 1],
          map (\<lambda>i. js_slice (soup p) (rowBelow i * int (width p))
                              ((rowBelow i + 1) * int (width p)))
              [1..<neighborsPerSide p + 1]))"

text \<open>\<open>(x << 8) | y\<close> on two array elements.\<close>

definition bigram :: "byte \<Rightarrow> byte \<Rightarrow> int" where
  "bigram x y = push_bit 8 (uint x) OR uint y"

text \<open>The bigrams that \<open>compressionCost\<close> adds to its set, in the order it adds them.\<close>

fun bigrams :: "byte list list \<Rightarrow> int list" where
  "bigrams [] = []"
| "bigrams [data] = map (\<lambda>i. bigram (data ! i) (data ! (i + 1))) [0..<length data - 1]"
| "bigrams (data # nextData # rest) =
     map (\<lambda>i. bigram (data ! i) (data ! (i + 1))) [0..<length data - 1]
     @ [bigram (rd data (int (length data) - 1)) (rd nextData 0)]
     @ bigrams (nextData # rest)"

definition compressionCost :: "byte list list \<Rightarrow> nat" where
  "compressionCost arrays = length (remdups (bigrams arrays))"

definition getSlice :: "'a Soup_scheme \<Rightarrow> int \<Rightarrow> Tape" where
  "getSlice p start =
     for_loop (regionSize p)
       (\<lambda>i tp. set_tape tp (int i)
                   (rd (soup p) (js_rem (start + int i) (int (length (soup p))))))
       (new_Tape (regionSize p))"

definition setSlice :: "'a Soup_scheme \<Rightarrow> int \<Rightarrow> Tape \<Rightarrow> 'a Soup_scheme" where
  "setSlice p start tp =
     p\<lparr>soup := for_loop (regionSize p)
                  (\<lambda>i s. wr s (js_rem (start + int i) (int (length s))) (rd tp (int i)))
                  (soup p)\<rparr>"

definition selectRandomSlice :: "Population \<Rightarrow> draws \<Rightarrow> (int \<times> draws) option" where
  "selectRandomSlice p rs =
     (case rs of
        [] \<Rightarrow> None
      | r # rs' \<Rightarrow>
          (let numSlots = \<lfloor>real (length (soup p)) / real (regionSize p)\<rfloor>;
               slot = \<lfloor>random_times r numSlots\<rfloor>
           in Some (slot * int (regionSize p), rs')))"

text \<open>The \<open>do ... while (a === b)\<close> of \<open>selectRandomPair\<close>, one round for each draw.\<close>

fun select_b :: "Population \<Rightarrow> int \<Rightarrow> draws \<Rightarrow> (int \<times> draws) option" where
  "select_b p a [] = None"
| "select_b p a (r # rs) =
     (case selectRandomSlice p (r # rs) of
        None \<Rightarrow> None
      | Some (b, rs') \<Rightarrow> if a = b then select_b p a rs else Some (b, rs'))"

definition selectRandomPair :: "Population \<Rightarrow> draws \<Rightarrow> (Pair \<times> draws) option" where
  "selectRandomPair p rs =
     (case selectRandomSlice p rs of
        None \<Rightarrow> None
      | Some (a, rs') \<Rightarrow>
          (case select_b p a rs' of
             None \<Rightarrow> None
           | Some (b, rs'') \<Rightarrow> Some ((a, b), rs'')))"

definition instructions :: "byte list" where
  "instructions = [0x3C, 0x3E, 0x7B, 0x7D, 0x2B, 0x2D, 0x2E, 0x2C, 0x5B, 0x5D]"

definition hasInstructions :: "Tape \<Rightarrow> bool" where
  "hasInstructions tp = list_ex (\<lambda>b. b \<in> set instructions) tp"

text \<open>
  One of the two inner loops of \<open>mutateSelected\<close>, over the offsets \<open>i\<close> still to visit:
  a draw decides whether the byte is replaced, a second draw is the new byte.
\<close>

fun mutateSlice :: "real \<Rightarrow> int \<Rightarrow> nat list \<Rightarrow> byte list \<Rightarrow> draws \<Rightarrow> (byte list \<times> draws) option" where
  "mutateSlice rate start [] s rs = Some (s, rs)"
| "mutateSlice rate start (i # is) s [] = None"
| "mutateSlice rate start (i # is) s (r # rs) =
     (if value_of r < rate
      then (case rs of
              [] \<Rightarrow> None
            | v # rs' \<Rightarrow>
                mutateSlice rate start is
                  (wr s (js_rem (start + int i) (int (length s)))
                     (of_int \<lfloor>random_times v 256\<rfloor>)) rs')
      else mutateSlice rate start is s rs)"

text \<open>The outer loop, \<open>for (const pair of this.currentPairs)\<close>: slice A, then slice B.\<close>

fun mutatePairs :: "real \<Rightarrow> nat \<Rightarrow> Pair list \<Rightarrow> byte list \<Rightarrow> draws \<Rightarrow> (byte list \<times> draws) option" where
  "mutatePairs rate R [] s rs = Some (s, rs)"
| "mutatePairs rate R ((a, b) # pairs) s rs =
     (case mutateSlice rate a [0..<R] s rs of
        None \<Rightarrow> None
      | Some (s', rs') \<Rightarrow>
          (case mutateSlice rate b [0..<R] s' rs' of
             None \<Rightarrow> None
           | Some (s'', rs'') \<Rightarrow> mutatePairs rate R pairs s'' rs''))"

text \<open>\<open>mutateSelected\<close> is the same text in both classes.\<close>

definition mutateSelected :: "'a Soup_scheme \<Rightarrow> draws \<Rightarrow> ('a Soup_scheme \<times> draws) option" where
  "mutateSelected p rs =
     (if mutationRate p \<le> 0 then Some (p, rs)
      else (case mutatePairs (mutationRate p) (regionSize p) (currentPairs p) (soup p) rs of
              None \<Rightarrow> None
            | Some (s, rs') \<Rightarrow> Some (p\<lparr>soup := s\<rparr>, rs')))"

text \<open>\<open>combineTapes\<close> and \<open>splitTape\<close> in the mode \<open>'concat'\<close>, the only one \<open>runPair\<close>
  asks for.\<close>

definition combineTapes :: "'a Soup_scheme \<Rightarrow> Tape \<Rightarrow> Tape \<Rightarrow> Tape" where
  "combineTapes p tapeA tapeB =
     for_loop (regionSize p)
       (\<lambda>i combined.
          set_tape (set_tape combined (int i) (rd tapeA (int i)))
                   (int i + int (regionSize p)) (rd tapeB (int i)))
       (new_Tape (regionSize p * 2))"

definition splitTape :: "'a Soup_scheme \<Rightarrow> Tape \<Rightarrow> Tape \<times> Tape" where
  "splitTape p combined =
     for_loop (regionSize p)
       (\<lambda>i (left, right).
          (set_tape left (int i) (rd combined (int i)),
           set_tape right (int i) (rd combined (int i + int (regionSize p)))))
       (new_Tape (regionSize p), new_Tape (regionSize p))"

text \<open>
  The two costs that \<open>runPair\<close> compares before it writes back: each half next to the
  neighbour rows of the slot it would go to, \<open>[...above, target, ...below]\<close>.
\<close>

definition costNoSwap :: "Population \<Rightarrow> Pair \<Rightarrow> Tape \<Rightarrow> Tape \<Rightarrow> nat" where
  "costNoSwap p pair left right =
     (let neighborsA = getNeighborRows p (fst pair);
          neighborsB = getNeighborRows p (snd pair)
      in compressionCost (fst neighborsA @ [left] @ snd neighborsA) +
         compressionCost (fst neighborsB @ [right] @ snd neighborsB))"

definition costSwap :: "Population \<Rightarrow> Pair \<Rightarrow> Tape \<Rightarrow> Tape \<Rightarrow> nat" where
  "costSwap p pair left right =
     (let neighborsA = getNeighborRows p (fst pair);
          neighborsB = getNeighborRows p (snd pair)
      in compressionCost (fst neighborsA @ [right] @ snd neighborsA) +
         compressionCost (fst neighborsB @ [left] @ snd neighborsB))"

definition runPair :: "Population \<Rightarrow> Pair \<Rightarrow> Population \<times> RunResult" where
  "runPair p pair =
     (let a = fst pair; b = snd pair;
          tapeA = getSlice p a;
          tapeB = getSlice p b;
          combined = combineTapes p tapeA tapeB
      in if \<not> hasInstructions combined
         then (p, \<lparr>steps = 0, reason = Some no_instructions, writes = None, jumps = None\<rparr>)
         else
           (let interpreter = run (new_BFFInterpreter combined);
                result = \<lparr>steps = stepCount interpreter, reason = haltReason interpreter,
                          writes = Some (writeCount interpreter),
                          jumps = Some (loopJumps interpreter)\<rparr>
            in if writeCount interpreter > 0
               then
                 (let left = fst (splitTape p (tape interpreter));
                      right = snd (splitTape p (tape interpreter))
                  in if costSwap p pair left right < costNoSwap p pair left right
                     then (setSlice (setSlice p a right) b left, result)
                     else (setSlice (setSlice p a left) b right, result))
               else (p, result)))"

text \<open>
  The first loop of \<open>soupStep\<close>, over the pairs still to run: select a pair, record it,
  run it. Then the mutation and the pair counter.
\<close>

fun runPairs :: "nat \<Rightarrow> Population \<Rightarrow> RunResult list \<Rightarrow> draws \<Rightarrow>
    (Population \<times> RunResult list \<times> draws) option" where
  "runPairs 0 p results rs = Some (p, results, rs)"
| "runPairs (Suc n) p results rs =
     (case selectRandomPair p rs of
        None \<Rightarrow> None
      | Some (pair, rs') \<Rightarrow>
          (let (p', r) = runPair (p\<lparr>currentPairs := currentPairs p @ [pair]\<rparr>) pair
           in runPairs n p' (results @ [r]) rs'))"

definition soupStep :: "Population \<Rightarrow> draws \<Rightarrow> (Population \<times> RunResult list \<times> draws) option" where
  "soupStep p rs =
     (case runPairs (pairsPerStep p) (p\<lparr>currentPairs := []\<rparr>) [] rs of
        None \<Rightarrow> None
      | Some (p1, results, rs1) \<Rightarrow>
          (case mutateSelected p1 rs1 of
             None \<Rightarrow> None
           | Some (p2, rs2) \<Rightarrow>
               Some (p2\<lparr>pairCount := pairCount p2 + pairsPerStep p2\<rparr>, results, rs2)))"

section \<open>Worker pool (worker-pool.js)\<close>

text \<open>
  The effect of \<open>executeBatch\<close> that the driver can see before any reply arrives is the
  messages it posts, one \<open>{type: 'execute', data: {pairs, head1Offset, maxSteps}}\<close> per
  worker that gets a share; \<open>posted\<close> collects them in order. The promise it returns
  settles later, in a callback of its own (\<open>batchSettled\<close> below). A pool that is not
  ready posts nothing: the \<open>throw\<close> of an \<open>async\<close> function rejects the promise.
\<close>

record Message =
  worker :: nat
  pairs :: "Pair list"
  head1Offset_msg :: int
  maxSteps_msg :: int

record WorkerPool =
  numWorkers :: nat
  ready :: bool
  posted :: "Message list"

definition executeBatch :: "WorkerPool \<Rightarrow> Pair list \<Rightarrow> int \<Rightarrow> int \<Rightarrow> WorkerPool" where
  "executeBatch pool ps h1 ms =
     (if \<not> ready pool then pool
      else
        (let pairsPerWorker = (length ps + numWorkers pool - 1) div numWorkers pool;
             batches =
               concat (map (\<lambda>i. if i * pairsPerWorker < length ps
                                 then [take (min (i * pairsPerWorker + pairsPerWorker) (length ps)
                                              - i * pairsPerWorker)
                                         (drop (i * pairsPerWorker) ps)]
                                 else [])
                           [0..<numWorkers pool])
         in pool\<lparr>posted := posted pool @
              map (\<lambda>i. \<lparr>worker = i, pairs = batches ! i, head1Offset_msg = h1,
                         maxSteps_msg = ms\<rparr>)
                  [0..<length batches]\<rparr>))"

text \<open>The default arguments: \<open>executeBatch(pairs, head1Offset = 64, maxSteps = 8192)\<close>.\<close>

definition executeBatch_default :: "WorkerPool \<Rightarrow> Pair list \<Rightarrow> WorkerPool" where
  "executeBatch_default pool ps = executeBatch pool ps 64 8192"

section \<open>Worker (worker.js)\<close>

text \<open>
  The \<open>'execute'\<close> case of the worker. The bytes that \<open>wasmModule.execute_batch\<close>
  returned are the argument \<open>result\<close>: its source is not part of the JavaScript. Per
  pair it holds 28 bytes of counters (seven little-endian 32-bit numbers) and the
  \<open>2 * regionSize\<close> bytes of the tape. A \<open>DataView\<close> that would reach past the end of
  \<open>result\<close> throws, which is \<open>None\<close> for the pair.
\<close>

definition getUint32 :: "byte list \<Rightarrow> nat \<Rightarrow> nat" where
  "getUint32 bs off =
     unat (bs ! off) + 2 ^ 8 * unat (bs ! (off + 1)) + 2 ^ 16 * unat (bs ! (off + 2))
     + 2 ^ 24 * unat (bs ! (off + 3))"

record Totals =
  totalHead0 :: nat
  totalHead1 :: nat
  totalMath :: nat
  totalCopy :: nat
  totalLoop :: nat

text \<open>The write-back loop of one pair: \<open>soup[a + j]\<close> and \<open>soup[b + j]\<close> for each \<open>j\<close>.\<close>

definition writeBack :: "byte list \<Rightarrow> nat \<Rightarrow> Pair \<Rightarrow> byte list \<Rightarrow> nat \<Rightarrow> byte list" where
  "writeBack s R pair result tapeOffset =
     for_loop R
       (\<lambda>j s'. wr (wr s' (fst pair + int j) (rd result (int (tapeOffset + j))))
                   (snd pair + int j) (rd result (int (tapeOffset + R + j))))
       s"

definition worker_pair :: "nat \<Rightarrow> byte list \<Rightarrow> nat \<Rightarrow> Pair \<Rightarrow> byte list \<times> Totals \<Rightarrow>
    (byte list \<times> Totals) option" where
  "worker_pair R result i pair st =
     (let resultSize = 28 + R * 2;
          offset = i * resultSize
      in if offset + 28 > length result then None
         else
           (let head0Count = getUint32 result (offset + 4);
                head1Count = getUint32 result (offset + 8);
                mathCount = getUint32 result (offset + 12);
                copyCount = getUint32 result (offset + 16);
                loopCount = getUint32 result (offset + 20);
                s = (if mathCount > 0 \<or> copyCount > 0
                     then writeBack (fst st) R pair result (offset + 28)
                     else fst st);
                t = snd st
            in Some (s, \<lparr>totalHead0 = totalHead0 t + head0Count,
                         totalHead1 = totalHead1 t + head1Count,
                         totalMath = totalMath t + mathCount,
                         totalCopy = totalCopy t + copyCount,
                         totalLoop = totalLoop t + loopCount\<rparr>)))"

text \<open>
  The loop over the pairs of the message. The soup is shared: when the \<open>DataView\<close> of a
  pair throws, the bytes written for the pairs before it stay written, and there are no
  totals.
\<close>

fun worker_loop :: "nat \<Rightarrow> byte list \<Rightarrow> nat \<Rightarrow> Pair list \<Rightarrow> byte list \<times> Totals \<Rightarrow>
    byte list \<times> Totals option" where
  "worker_loop R result i [] st = (fst st, Some (snd st))"
| "worker_loop R result i (pair # ps) st =
     (case worker_pair R result i pair st of
        None \<Rightarrow> (fst st, None)
      | Some st' \<Rightarrow> worker_loop R result (i + 1) ps st')"

text \<open>
  The shared soup after the message, and the totals posted back with the count; nothing
  is posted back when the loop threw.
\<close>

definition worker_execute :: "byte list \<Rightarrow> nat \<Rightarrow> Pair list \<Rightarrow> byte list \<Rightarrow>
    byte list \<times> (Totals \<times> nat) option" where
  "worker_execute s R ps result =
     (case worker_loop R result 0 ps
             (s, \<lparr>totalHead0 = 0, totalHead1 = 0, totalMath = 0, totalCopy = 0,
                  totalLoop = 0\<rparr>) of
        (s', None) \<Rightarrow> (s', None)
      | (s', Some t) \<Rightarrow> (s', Some (t, length ps)))"

section \<open>PopulationWasm (population-wasm.js)\<close>

record PopulationWasm = Soup +
  alignment :: int
  localityLimit :: "int option"
  head1Offset :: int
  maxSteps :: int
  workerPool :: WorkerPool
  pendingExecutions :: int
  maxPendingExecutions :: int

text \<open>
  The constructor. It leaves \<open>soup\<close> and \<open>workerPool\<close> null for \<open>initialize()\<close> to
  fill in; they are the empty array and a pool that is not ready here. The rate is the
  number that the source writes, \<open>0.00024\<close>; the double it denotes is the nearest one
  above it, so the same doubles are below the one and below the other.
\<close>

definition new_PopulationWasm :: "nat \<Rightarrow> nat \<Rightarrow> nat \<Rightarrow> PopulationWasm" where
  "new_PopulationWasm w h r =
     \<lparr>width = w, height = h, regionSize = r, soup = [], pairsPerStep = 100,
      currentPairs = [], mutationRate = 0.00024, pairCount = 0,
      numTapes = nat \<lfloor>real (w * h) / real r\<rfloor>,
      alignment = 64, localityLimit = None, head1Offset = 32, maxSteps = 8192,
      workerPool = \<lparr>numWorkers = 0, ready = False, posted = []\<rparr>,
      pendingExecutions = 0, maxPendingExecutions = 50\<rparr>"

text \<open>The constructor's defaults: \<open>width = 64, height = 8192, regionSize = 64\<close>.\<close>

definition default_PopulationWasm :: PopulationWasm where
  "default_PopulationWasm = new_PopulationWasm 64 8192 64"

definition numPositions :: "PopulationWasm \<Rightarrow> int" where
  "numPositions p =
     (let maxStart = int (length (soup p)) - int (regionSize p)
      in \<lfloor>real_of_int maxStart / real_of_int (alignment p)\<rfloor> + 1)"

definition selectRandomSlice_wasm :: "PopulationWasm \<Rightarrow> draws \<Rightarrow> (int \<times> draws) option" where
  "selectRandomSlice_wasm p rs =
     (case rs of
        [] \<Rightarrow> None
      | r # rs' \<Rightarrow> Some (\<lfloor>random_times r (numPositions p)\<rfloor> * alignment p, rs'))"

text \<open>The two \<open>do ... while\<close> loops of \<open>selectRandomPair\<close>, one round for each draw.\<close>

fun select_local :: "PopulationWasm \<Rightarrow> int \<Rightarrow> int \<Rightarrow> int \<Rightarrow> draws \<Rightarrow> (int \<times> draws) option" where
  "select_local p a minPos maxPos [] = None"
| "select_local p a minPos maxPos (r # rs) =
     (let posB = minPos + \<lfloor>random_times r (maxPos - minPos + 1)\<rfloor>
      in if \<bar>posB * alignment p - a\<bar> < int (regionSize p)
         then select_local p a minPos maxPos rs
         else Some (posB * alignment p, rs))"

fun select_any :: "PopulationWasm \<Rightarrow> int \<Rightarrow> draws \<Rightarrow> (int \<times> draws) option" where
  "select_any p a [] = None"
| "select_any p a (r # rs) =
     (let pos = \<lfloor>random_times r (numPositions p)\<rfloor>;
          b = pos * alignment p
      in if \<bar>b - a\<bar> < int (regionSize p) then select_any p a rs else Some (b, rs))"

definition selectRandomPair_wasm :: "PopulationWasm \<Rightarrow> draws \<Rightarrow> (Pair \<times> draws) option" where
  "selectRandomPair_wasm p rs =
     (case selectRandomSlice_wasm p rs of
        None \<Rightarrow> None
      | Some (a, rs') \<Rightarrow>
          (case (if localityLimit p \<noteq> None \<and> the (localityLimit p) > 0
                 then
                   (let posA = \<lfloor>real_of_int a / real_of_int (alignment p)\<rfloor>;
                        localityInPositions =
                          \<lfloor>real_of_int (the (localityLimit p)) * real (numTapes p)
                            * real (regionSize p) / real_of_int (alignment p) / 100\<rfloor>;
                        minPos = max 0 (posA - localityInPositions);
                        maxPos = min (numPositions p - 1) (posA + localityInPositions)
                    in select_local p a minPos maxPos rs')
                 else select_any p a rs') of
             None \<Rightarrow> None
           | Some (b, rs'') \<Rightarrow> Some ((a, b), rs'')))"

text \<open>The loop "Generate pairs" of \<open>soupStep\<close>, over the pairs still to select.\<close>

fun generatePairs :: "nat \<Rightarrow> PopulationWasm \<Rightarrow> draws \<Rightarrow> (PopulationWasm \<times> draws) option" where
  "generatePairs 0 p rs = Some (p, rs)"
| "generatePairs (Suc n) p rs =
     (case selectRandomPair_wasm p rs of
        None \<Rightarrow> None
      | Some (pair, rs') \<Rightarrow> generatePairs n (p\<lparr>currentPairs := currentPairs p @ [pair]\<rparr>) rs')"

text \<open>
  \<open>soupStep\<close> up to and including the call of \<open>executeBatch\<close>, whose promise it does
  not wait for: the batch is counted as pending and its messages are posted.
\<close>

definition dispatch :: "PopulationWasm \<Rightarrow> PopulationWasm" where
  "dispatch p =
     (let p1 = p\<lparr>pairCount := pairCount p + pairsPerStep p\<rparr>;
          p2 = p1\<lparr>pendingExecutions := pendingExecutions p1 + 1\<rparr>
      in p2\<lparr>workerPool :=
              executeBatch (workerPool p2) (currentPairs p2) (head1Offset p2) (maxSteps p2)\<rparr>)"

definition soupStep_wasm :: "PopulationWasm \<Rightarrow> draws \<Rightarrow> (PopulationWasm \<times> draws) option" where
  "soupStep_wasm p rs =
     (if pendingExecutions p \<ge> maxPendingExecutions p then Some (p, rs)
      else (case generatePairs (pairsPerStep p) (p\<lparr>currentPairs := []\<rparr>) rs of
              None \<Rightarrow> None
            | Some (p1, rs1) \<Rightarrow> mutateSelected (dispatch p1) rs1))"

text \<open>The callbacks \<open>.then\<close> and \<open>.catch\<close> of the promise, run when the batch has settled
  (the moving averages of the counters are display only).\<close>

definition batchSettled :: "PopulationWasm \<Rightarrow> PopulationWasm" where
  "batchSettled p = p\<lparr>pendingExecutions := pendingExecutions p - 1\<rparr>"

section \<open>Predicates of the properties\<close>

text \<open>Both heads are indices of the tape.\<close>

definition heads_in_range :: "BFFInterpreter \<Rightarrow> bool" where
  "heads_in_range s \<longleftrightarrow>
     0 \<le> head0 s \<and> head0 s < size_tape (tape s) \<and> 0 \<le> head1 s \<and> head1 s < size_tape (tape s)"

text \<open>The step cap holds and a halted interpreter names one of the three reasons of
  \<open>step()\<close>.\<close>

definition halt_ok :: "BFFInterpreter \<Rightarrow> bool" where
  "halt_ok s \<longleftrightarrow>
     stepCount s \<le> MAX_STEPS \<and>
     (if halted s
      then haltReason s \<in> {Some max_steps, Some end_of_tape, Some unmatched_bracket}
      else True)"

text \<open>The \<open>R\<close> bytes of the soup from \<open>start\<close> on.\<close>

definition region :: "byte list \<Rightarrow> int \<Rightarrow> nat \<Rightarrow> byte list" where
  "region s start R = take R (drop (nat start) s)"

text \<open>Two regions that lie inside the soup and do not overlap.\<close>

definition separate :: "byte list \<Rightarrow> nat \<Rightarrow> Pair \<Rightarrow> bool" where
  "separate s R pair \<longleftrightarrow>
     0 \<le> fst pair \<and> fst pair + int R \<le> int (length s) \<and>
     0 \<le> snd pair \<and> snd pair + int R \<le> int (length s) \<and>
     \<bar>fst pair - snd pair\<bar> \<ge> int R"

text \<open>
  The variable \<open>depth\<close> of the loop of \<open>_findMatchingBracket\<close> after \<open>n\<close> rounds that
  started with \<open>depth\<close> at \<open>pos\<close>.
\<close>

fun depth_after :: "Tape \<Rightarrow> Direction \<Rightarrow> int \<Rightarrow> int \<Rightarrow> nat \<Rightarrow> int" where
  "depth_after t d depth pos 0 = depth"
| "depth_after t d depth pos (Suc n) =
     scan_depth d (get t (pos + delta d * int (Suc n))) (depth_after t d depth pos n)"

text \<open>
  The nesting count in the words of the specification, for the bracket at \<open>pos\<close>: the
  bracket itself counts 1, and of the \<open>n\<close> cells that follow it in the direction of the
  scan every \<open>[\<close> (the byte \<open>0x5B\<close>) adds one and every \<open>]\<close> (the byte \<open>0x5D\<close>) takes one off
  going forward, the reverse going backward. The matching bracket is the first cell at
  which the count is 0.
\<close>

fun spec_ahead :: "Direction \<Rightarrow> int \<Rightarrow> nat \<Rightarrow> int" where
  "spec_ahead Forward pos n = pos + int n"
| "spec_ahead Backward pos n = pos - int n"

definition spec_cells :: "Tape \<Rightarrow> Direction \<Rightarrow> int \<Rightarrow> nat \<Rightarrow> byte list" where
  "spec_cells t d pos n = map (\<lambda>m. get t (spec_ahead d pos m)) [1..<n + 1]"

fun spec_nesting :: "Tape \<Rightarrow> Direction \<Rightarrow> int \<Rightarrow> nat \<Rightarrow> int" where
  "spec_nesting t Forward pos n =
     1 + int (count_list (spec_cells t Forward pos n) 0x5B)
       - int (count_list (spec_cells t Forward pos n) 0x5D)"
| "spec_nesting t Backward pos n =
     1 + int (count_list (spec_cells t Backward pos n) 0x5D)
       - int (count_list (spec_cells t Backward pos n) 0x5B)"

text \<open>The byte of the bracket that matches: \<open>]\<close> for a scan forward, \<open>[\<close> backward.\<close>

fun spec_match :: "Direction \<Rightarrow> byte" where
  "spec_match Forward = 0x5D"
| "spec_match Backward = 0x5B"

definition in_tape :: "Tape \<Rightarrow> int \<Rightarrow> bool" where
  "in_tape t q \<longleftrightarrow> 0 \<le> q \<and> q < size_tape t"

text \<open>The bracket that ends a scan in direction \<open>d\<close>.\<close>

fun closing :: "Direction \<Rightarrow> byte" where
  "closing Forward = closeBracket"
| "closing Backward = openBracket"

text \<open>
  The instruction at \<open>ip\<close> is a bracket that jumps: \<open>[\<close> with a zero under \<open>head0\<close>
  (a forward scan) or \<open>]\<close> with a nonzero byte under \<open>head0\<close> (a backward scan).
\<close>

definition taken :: "BFFInterpreter \<Rightarrow> Direction \<Rightarrow> bool" where
  "taken s d \<longleftrightarrow>
     (d = Forward \<and> get (tape s) (ip s) = openBracket \<and> get (tape s) (head0 s) = 0) \<or>
     (d = Backward \<and> get (tape s) (ip s) = closeBracket \<and> get (tape s) (head0 s) \<noteq> 0)"

text \<open>
  Index \<open>k\<close> of a soup of \<open>len\<close> bytes belongs to a region of one of the pairs: it is
  \<open>(start + i) % len\<close> for a start of a pair and an offset \<open>i < R\<close>.
\<close>

definition selected :: "Pair list \<Rightarrow> nat \<Rightarrow> nat \<Rightarrow> nat \<Rightarrow> bool" where
  "selected ps R len k \<longleftrightarrow>
     list_ex (\<lambda>pair. list_ex (\<lambda>i. js_rem (fst pair + int i) (int len) = int k \<or>
                                  js_rem (snd pair + int i) (int len) = int k) [0..<R]) ps"


text \<open>
  The mutation of a step in the words of the specification: for each selected region
  position \<open>p\<close> of \<open>{a, b}\<close> and each byte offset \<open>i\<close> of \<open>[0, R)\<close>, the byte \<open>soup[p + i]\<close>
  (the index taken modulo the length of the soup, as \<open>mutateSelected\<close> takes it) is
  replaced if the draw made for it is below the rate, and then by a random byte, 256
  times the next draw rounded down. \<open>spec_targets\<close> are these indices, pair by pair and
  region \<open>a\<close> before region \<open>b\<close>; \<open>spec_decisions\<close> reads from the draws what happens to
  each of \<open>n\<close> bytes, \<open>None\<close> for a byte that stays and \<open>Some v\<close> for one that becomes \<open>v\<close>;
  \<open>spec_replace\<close> does it.
\<close>

definition spec_targets :: "Pair list \<Rightarrow> nat \<Rightarrow> nat \<Rightarrow> int list" where
  "spec_targets ps R len =
     concat (map (\<lambda>pair. map (\<lambda>i. js_rem (fst pair + int i) (int len)) [0..<R] @
                          map (\<lambda>i. js_rem (snd pair + int i) (int len)) [0..<R]) ps)"

fun spec_decisions :: "real \<Rightarrow> nat \<Rightarrow> draws \<Rightarrow> (byte option list \<times> draws) option" where
  "spec_decisions rate 0 ds = Some ([], ds)"
| "spec_decisions rate (Suc n) [] = None"
| "spec_decisions rate (Suc n) (d # ds) =
     (if value_of d < rate
      then (case ds of
              [] \<Rightarrow> None
            | v # ds' \<Rightarrow>
                (case spec_decisions rate n ds' of
                   None \<Rightarrow> None
                 | Some (os, rest) \<Rightarrow> Some (Some (of_int \<lfloor>random_times v 256\<rfloor>) # os, rest)))
      else (case spec_decisions rate n ds of
              None \<Rightarrow> None
            | Some (os, rest) \<Rightarrow> Some (None # os, rest)))"

definition spec_replace :: "(int \<times> byte option) list \<Rightarrow> byte list \<Rightarrow> byte list" where
  "spec_replace kos s =
     fold (\<lambda>ko s'. case snd ko of None \<Rightarrow> s' | Some v \<Rightarrow> wr s' (fst ko) v) kos s"

definition spec_mutate :: "real \<Rightarrow> int list \<Rightarrow> byte list \<Rightarrow> draws \<Rightarrow>
    (byte list \<times> draws) option" where
  "spec_mutate rate ks s ds =
     (case spec_decisions rate (length ks) ds of
        None \<Rightarrow> None
      | Some (os, rest) \<Rightarrow> Some (spec_replace (zip ks os) s, rest))"

text \<open>
  The pairs of a step of \<open>Population\<close> selected without running them, and the pairs run
  one after the other without any draw: \<open>soupStep\<close> records a pair in \<open>currentPairs\<close> and
  calls \<open>runPair\<close>.
\<close>

fun selectPairs :: "nat \<Rightarrow> Population \<Rightarrow> draws \<Rightarrow> (Pair list \<times> draws) option" where
  "selectPairs 0 p rs = Some ([], rs)"
| "selectPairs (Suc n) p rs =
     (case selectRandomPair p rs of
        None \<Rightarrow> None
      | Some (pair, rs') \<Rightarrow>
          (case selectPairs n p rs' of
             None \<Rightarrow> None
           | Some (ps, rs'') \<Rightarrow> Some (pair # ps, rs'')))"

definition runAll :: "Pair list \<Rightarrow> Population \<Rightarrow> Population" where
  "runAll ps p =
     fold (\<lambda>pair q. fst (runPair (q\<lparr>currentPairs := currentPairs q @ [pair]\<rparr>) pair)) ps p"

text \<open>The four instructions that write to the tape: \<open>+\<close>, \<open>-\<close>, \<open>.\<close> and \<open>,\<close>.\<close>

definition writes_tape :: "BFFInterpreter \<Rightarrow> bool" where
  "writes_tape s \<longleftrightarrow>
     byteToInstruction (get (tape s) (ip s)) \<in>
       {Some CHR ''+'', Some CHR ''-'', Some CHR ''.'', Some CHR '',''}"
section \<open>Example inputs\<close>

text \<open>
  A soup of eight rows of two bytes with regions of two bytes. Slot 0 holds \<open>+,\<close> and
  slot 8 holds two bytes that are no instructions; the rows around slot 0 look like
  slot 8 and the rows around slot 8 look like what \<open>+,\<close> turns into.
\<close>

definition swap_example :: Population where
  "swap_example =
     \<lparr>width = 2, height = 8, regionSize = 2,
      soup = [0x2B, 0x2C, 1, 1, 0, 0, 0x2C, 0x2C, 1, 1, 0x2C, 0x2C, 0, 0, 1, 1],
      pairsPerStep = 1, currentPairs = [], mutationRate = 0, pairCount = 0, numTapes = 8,
      neighborsPerSide = 2\<rparr>"

text \<open>
  What \<open>execute_batch\<close> could return for one pair with regions of one byte: the counters
  \<open>steps = 2\<close> and \<open>mathCount = 1\<close>, all others 0, and the tape \<open>[7, 9]\<close>.
\<close>

definition worker_example :: "byte list" where
  "worker_example =
     [2, 0, 0, 0,  0, 0, 0, 0,  0, 0, 0, 0,  1, 0, 0, 0,  0, 0, 0, 0,  0, 0, 0, 0,
      0, 0, 0, 0,  7, 9]"

definition no_totals :: Totals where
  "no_totals = \<lparr>totalHead0 = 0, totalHead1 = 0, totalMath = 0, totalCopy = 0, totalLoop = 0\<rparr>"

text \<open>
  Two soups of two rows of two bytes with regions of two bytes: one without any
  instruction, one whose only instructions are \<open>>\<close> and \<open><\<close>.
\<close>

definition inert_example :: Population where
  "inert_example =
     \<lparr>width = 2, height = 2, regionSize = 2, soup = [1, 2, 3, 4],
      pairsPerStep = 1, currentPairs = [], mutationRate = 0, pairCount = 0, numTapes = 2,
      neighborsPerSide = 2\<rparr>"

definition quiet_example :: Population where
  "quiet_example =
     \<lparr>width = 2, height = 2, regionSize = 2, soup = [0x3E, 0x3C, 1, 1],
      pairsPerStep = 1, currentPairs = [], mutationRate = 0, pairCount = 0, numTapes = 2,
      neighborsPerSide = 2\<rparr>"

text \<open>A result of \<open>execute_batch\<close> as \<open>worker_example\<close>, with no math and no copy.\<close>

definition worker_quiet :: "byte list" where
  "worker_quiet =
     [2, 0, 0, 0,  1, 0, 0, 0,  0, 0, 0, 0,  0, 0, 0, 0,  0, 0, 0, 0,  0, 0, 0, 0,
      0, 0, 0, 0,  7, 9]"

text \<open>
  A \<open>PopulationWasm\<close> with four rows of two bytes, regions and alignment of two bytes,
  one pair per step, one worker and a mutation rate of one half; and one with a hundred
  rows and a locality limit.
\<close>

definition wasm_example :: PopulationWasm where
  "wasm_example =
     \<lparr>width = 2, height = 4, regionSize = 2, soup = [1, 2, 3, 4, 5, 6, 7, 8],
      pairsPerStep = 1, currentPairs = [], mutationRate = 1 / 2, pairCount = 0, numTapes = 4,
      alignment = 2, localityLimit = None, head1Offset = 2, maxSteps = 8192,
      workerPool = \<lparr>numWorkers = 1, ready = True, posted = []\<rparr>,
      pendingExecutions = 0, maxPendingExecutions = 50\<rparr>"

definition local_example :: PopulationWasm where
  "local_example =
     wasm_example\<lparr>height := 100, soup := replicate 200 0, numTapes := 100,
       localityLimit := Some 1\<rparr>"

text \<open>The soup of \<open>quiet_example\<close> with a mutation rate of one half.\<close>

definition legacy_example :: Population where
  "legacy_example = quiet_example\<lparr>mutationRate := 1 / 2\<rparr>"

text \<open>
  The draws 0, \<open>1 / 4\<close>, \<open>1 / 2\<close> and \<open>3 / 4\<close>, and draws for one step with one pair: three
  for the selection (the second start is drawn twice), then per byte of the two regions
  one that decides and, after \<open>1 / 4\<close>, one that is the new byte.
\<close>

definition draw_zero :: Draw where
  "draw_zero = draw 0 0"

definition draw_quarter :: Draw where
  "draw_quarter = draw 1 2"

definition draw_half :: Draw where
  "draw_half = draw 1 1"

definition draw_three_quarters :: Draw where
  "draw_three_quarters = draw 3 2"

definition step_draws :: draws where
  "step_draws =
     [draw_zero, draw_zero, draw_three_quarters,
      draw_quarter, draw_half, draw_three_quarters, draw_three_quarters, draw_three_quarters]"

definition legacy_draws :: draws where
  "legacy_draws =
     [draw_zero, draw_zero, draw_half,
      draw_quarter, draw_half, draw_three_quarters, draw_three_quarters, draw_three_quarters]"

text \<open>
  A \<open>PopulationWasm\<close> with seven positions, and the double \<open>0.5714285714285714\<close>, which
  is \<open>2573485501354569 / 2 ^ 52\<close>: seven times it is \<open>4 - 2 ^ - 52\<close>, half way between two
  doubles, and the product of the doubles is 4.
\<close>

definition seven_example :: PopulationWasm where
  "seven_example =
     wasm_example\<lparr>height := 7, soup := [1, 2, 3, 4, 5, 6, 7, 8, 9, 10, 11, 12, 13, 14],
       numTapes := 7\<rparr>"

definition four_sevenths :: Draw where
  "four_sevenths = draw 2573485501354569 52"

section \<open>Evaluation on concrete inputs\<close>

lemma list_update_Cons_numeral: "(x # xs)[numeral v := y] = x # xs[numeral v - 1 := y]"
  by (simp add: numeral_eq_Suc)

lemma replicate_numeral: "replicate (numeral v) x = x # replicate (numeral v - 1) x"
  by (simp add: numeral_eq_Suc)

lemmas upt_eval = upt_rec [of 0 "numeral n"] upt_rec [of 1 "numeral n"]
  upt_rec [of "Suc i" "numeral n"] for i n

lemmas array_eval = rd_def wr_def js_rem_def for_loop_def js_slice_def
  list_update_Cons_numeral replicate_numeral upt_eval

lemmas tape_eval = get_def set_tape_def increment_def decrement_def wrap_def size_tape_def
  new_Tape_def

lemmas interpreter_eval = step_def exec_def advance_def advance_unless_halted_def
  halt_unmatched_def new_BFFInterpreter_def reset_def MAX_STEPS_def wrapHead_def
  findMatchingBracket_def scan.simps scan_depth_def openBracket_def closeBracket_def
  byteToInstruction_def BYTE_TO_INSTRUCTION_def BFF_INSTRUCTIONS_def run.simps

section \<open>Facts about the interpreter\<close>

subsection \<open>Arrays and wrapping\<close>

lemma length_wr [simp]: "length (wr xs k v) = length xs"
  by (simp add: wr_def)

lemma js_rem_wrap_range:
  assumes "0 < n"
  shows "0 \<le> js_rem (js_rem i n + n) n" and "js_rem (js_rem i n + n) n < n"
proof -
  have a: "(- i) mod n < n" and b: "0 \<le> i mod n"
    using assms by simp_all
  have "- n < js_rem i n"
  proof (cases "i < 0")
    case True
    with a show ?thesis by (simp add: js_rem_def)
  next
    case False
    with b assms show ?thesis unfolding js_rem_def by (simp only: if_False)
  qed
  then have "0 \<le> js_rem i n + n"
    by simp
  then have eq: "js_rem (js_rem i n + n) n = (js_rem i n + n) mod n"
    by (simp add: js_rem_def)
  show "0 \<le> js_rem (js_rem i n + n) n" and "js_rem (js_rem i n + n) n < n"
    using assms by (simp_all add: eq)
qed

lemma js_rem_wrap_id:
  assumes "0 \<le> i" and "i < n"
  shows "js_rem (js_rem i n + n) n = i"
  using assms by (simp add: js_rem_def)

lemma length_set_tape [simp]: "length (set_tape t i v) = length t"
  by (simp add: set_tape_def)

lemma length_increment [simp]: "length (increment t i) = length t"
  by (simp add: increment_def Let_def)

lemma length_decrement [simp]: "length (decrement t i) = length t"
  by (simp add: decrement_def Let_def)

subsection \<open>One step\<close>

lemma advance_fields [simp]:
  "tape (advance s) = tape s" "head0 (advance s) = head0 s" "head1 (advance s) = head1 s"
  "stepCount (advance s) = stepCount s" "writeCount (advance s) = writeCount s"
  "loopJumps (advance s) = loopJumps s"
  by (simp_all add: advance_def Let_def)

lemma advance_unless_halted_fields [simp]:
  "tape (advance_unless_halted s) = tape s" "head0 (advance_unless_halted s) = head0 s"
  "head1 (advance_unless_halted s) = head1 s"
  "stepCount (advance_unless_halted s) = stepCount s"
  "writeCount (advance_unless_halted s) = writeCount s"
  "loopJumps (advance_unless_halted s) = loopJumps s"
  by (simp_all add: advance_unless_halted_def)

lemma length_tape_exec [simp]: "length (tape (exec c s)) = length (tape s)"
  by (simp add: exec_def halt_unmatched_def Let_def)

lemma length_tape_step [simp]: "length (tape (step s)) = length (tape s)"
  by (simp add: step_def split: option.splits)

lemma length_tape_steps [simp]: "length (tape ((step ^^ n) s)) = length (tape s)"
  by (induction n) simp_all

subsection \<open>The loop\<close>

lemma run_halted: "halted (run s)"
  by (induction s rule: run.induct) (simp add: run.simps)

lemma run_invariant:
  assumes "I s" and "\<And>u. I u \<Longrightarrow> \<not> halted u \<Longrightarrow> I (step u)"
  shows "I (run s)"
  using assms(1)
proof (induction s rule: run.induct)
  case (1 s)
  show ?case
  proof (cases "halted s")
    case True
    with 1 show ?thesis by (simp add: run.simps)
  next
    case False
    with 1 assms(2) have "I (run (step s))" by simp
    with False show ?thesis by (simp add: run.simps)
  qed
qed

lemma length_tape_run [simp]: "length (tape (run s)) = length (tape s)"
  by (rule run_invariant [where I = "\<lambda>u. length (tape u) = length (tape s)"]) simp_all

lemma new_BFFInterpreter_fields [simp]:
  "tape (new_BFFInterpreter t) = t" "ip (new_BFFInterpreter t) = 0"
  "head0 (new_BFFInterpreter t) = 0" "head1 (new_BFFInterpreter t) = 0"
  "stepCount (new_BFFInterpreter t) = 0" "writeCount (new_BFFInterpreter t) = 0"
  "loopJumps (new_BFFInterpreter t) = 0" "halted (new_BFFInterpreter t) = False"
  "haltReason (new_BFFInterpreter t) = None"
  by (simp_all add: new_BFFInterpreter_def reset_def)

lemma funpow2: "(f ^^ 2) x = f (f x)"
  by (simp add: numeral_2_eq_2)

subsection \<open>Writes\<close>

lemma exec_writeCount:
  "writeCount s \<le> writeCount (exec c s) \<and>
   (writeCount (exec c s) = writeCount s \<longrightarrow> tape (exec c s) = tape s)"
  by (simp add: exec_def halt_unmatched_def Let_def)

lemma step_writeCount:
  "writeCount s \<le> writeCount (step s) \<and>
   (writeCount (step s) = writeCount s \<longrightarrow> tape (step s) = tape s)"
  using exec_writeCount [of "s\<lparr>stepCount := stepCount s + 1\<rparr>"]
  by (simp add: step_def split: option.splits)

lemma no_write_step:
  assumes "writeCount s = 0 \<longrightarrow> tape s = t"
  shows "writeCount (step s) = 0 \<longrightarrow> tape (step s) = t"
  using assms step_writeCount [of s] by auto

lemma no_write_run:
  "writeCount (run (new_BFFInterpreter t)) = 0 \<longrightarrow> tape (run (new_BFFInterpreter t)) = t"
  by (rule run_invariant [where I = "\<lambda>u. writeCount u = 0 \<longrightarrow> tape u = t"])
     (simp_all add: no_write_step)

lemma exec_tape_changed:
  assumes "tape (exec c s) \<noteq> tape s"
  shows "c \<in> {CHR ''+'', CHR ''-'', CHR ''.'', CHR '',''} \<and>
         writeCount (exec c s) = writeCount s + 1"
  using assms by (simp add: exec_def halt_unmatched_def Let_def split: if_splits)

lemma step_tape_changed:
  assumes "tape (step s) \<noteq> tape s"
  shows "writes_tape s \<and> writeCount (step s) = writeCount s + 1"
proof -
  from assms obtain c where c: "byteToInstruction (get (tape s) (ip s)) = Some c"
    and ex: "step s = exec c (s\<lparr>stepCount := stepCount s + 1\<rparr>)"
    by (auto simp: step_def split: if_splits option.splits)
  from assms ex have "tape (exec c (s\<lparr>stepCount := stepCount s + 1\<rparr>)) \<noteq>
      tape (s\<lparr>stepCount := stepCount s + 1\<rparr>)"
    by simp
  from exec_tape_changed [OF this] c ex show ?thesis
    by (simp add: writes_tape_def)
qed
subsection \<open>The bracket scan\<close>

lemma depth_after_shift:
  "depth_after t d depth pos (Suc n) =
   depth_after t d (scan_depth d (get t (pos + delta d)) depth) (pos + delta d) n"
proof (induction n)
  case 0
  show ?case by simp
next
  case (Suc n)
  have e: "pos + delta d * int (Suc (Suc n)) = (pos + delta d) + delta d * int (Suc n)"
    by (simp add: algebra_simps)
  have "depth_after t d depth pos (Suc (Suc n)) =
        scan_depth d (get t (pos + delta d * int (Suc (Suc n))))
          (depth_after t d depth pos (Suc n))"
    by (simp only: depth_after.simps)
  also have "\<dots> = scan_depth d (get t ((pos + delta d) + delta d * int (Suc n)))
          (depth_after t d (scan_depth d (get t (pos + delta d)) depth) (pos + delta d) n)"
    by (simp only: e Suc.IH)
  also have "\<dots> =
      depth_after t d (scan_depth d (get t (pos + delta d)) depth) (pos + delta d) (Suc n)"
    by (simp only: depth_after.simps)
  finally show ?case .
qed

lemma scan_depth_zero:
  assumes "1 \<le> depth" and "scan_depth d b depth = 0"
  shows "b = closing d"
  using assms by (cases d) (auto simp: scan_depth_def split: if_splits)

lemma scan_depth_pos:
  assumes "1 \<le> depth" and "scan_depth d b depth \<noteq> 0"
  shows "1 \<le> scan_depth d b depth"
  using assms by (cases d) (auto simp: scan_depth_def split: if_splits)

lemma scan_in_tape:
  "scan t d depth pos = - 1 \<or> in_tape t (scan t d depth pos)"
proof (induction t d depth pos rule: scan.induct)
  case (1 t d depth pos)
  then show ?case
    by (subst (1 2) scan.simps) (auto simp: in_tape_def)
qed

lemma scan_unmatched:
  assumes "1 \<le> depth" and "scan t d depth pos = - 1"
    and "\<forall>m. 1 \<le> m \<and> m \<le> n \<longrightarrow> in_tape t (pos + delta d * int m)"
  shows "depth_after t d depth pos n \<noteq> 0"
  using assms
proof (induction t d depth pos arbitrary: n rule: scan.induct)
  case (1 t d depth pos)
  show ?case
  proof (cases n)
    case 0
    with "1.prems" show ?thesis by simp
  next
    case (Suc k)
    let ?pos = "pos + delta d"
    let ?depth = "scan_depth d (get t ?pos) depth"
    from "1.prems"(3) Suc have first: "in_tape t ?pos"
      by (auto dest: spec [of _ 1])
    have rest: "\<forall>m. 1 \<le> m \<and> m \<le> k \<longrightarrow> in_tape t (?pos + delta d * int m)"
    proof (intro allI impI)
      fix m assume "1 \<le> m \<and> m \<le> k"
      then have "in_tape t (pos + delta d * int (Suc m))"
        using "1.prems"(3) Suc by (auto dest: spec [of _ "Suc m"])
      then show "in_tape t (?pos + delta d * int m)"
        by (simp add: algebra_simps)
    qed
    from first have range: "\<not> (?pos < 0 \<or> size_tape t \<le> ?pos)"
      by (auto simp: in_tape_def)
    from "1.prems"(2) range have nz: "?depth \<noteq> 0"
      by (subst (asm) scan.simps) (auto simp: in_tape_def split: if_splits)
    with "1.prems"(2) range have nxt: "scan t d ?depth ?pos = - 1"
      by (subst (asm) scan.simps) simp
    from "1.prems"(1) nz have "1 \<le> ?depth"
      by (rule scan_depth_pos)
    with "1.IH" [OF range nz _ nxt rest] have "depth_after t d ?depth ?pos k \<noteq> 0"
      by simp
    then show ?thesis
      unfolding Suc by (simp only: depth_after_shift not_False_eq_True)
  qed
qed

lemma scan_matched:
  assumes "1 \<le> depth" and "scan t d depth pos \<noteq> - 1"
  shows "\<exists>n\<ge>1. scan t d depth pos = pos + delta d * int n \<and>
           depth_after t d depth pos n = 0 \<and>
           (\<forall>m<n. depth_after t d depth pos m \<noteq> 0) \<and>
           get t (scan t d depth pos) = closing d"
  using assms
proof (induction t d depth pos rule: scan.induct)
  case (1 t d depth pos)
  let ?pos = "pos + delta d"
  let ?depth = "scan_depth d (get t ?pos) depth"
  from "1.prems"(2) have range: "\<not> (?pos < 0 \<or> size_tape t \<le> ?pos)"
    by (subst (asm) scan.simps) (auto split: if_splits)
  show ?case
  proof (cases "?depth = 0")
    case True
    with range have r: "scan t d depth pos = ?pos"
      by (subst scan.simps) simp
    have "depth_after t d depth pos 1 = 0"
      using True by simp
    moreover have "\<forall>m<1. depth_after t d depth pos m \<noteq> 0"
      using "1.prems"(1) by simp
    moreover have "get t ?pos = closing d"
      using "1.prems"(1) True by (rule scan_depth_zero)
    ultimately show ?thesis
      unfolding r by (intro exI [of _ 1]) simp
  next
    case False
    with range have r: "scan t d depth pos = scan t d ?depth ?pos"
      by (subst scan.simps) simp
    from "1.prems"(1) False have pos: "1 \<le> ?depth"
      by (rule scan_depth_pos)
    from "1.prems"(2) have "scan t d ?depth ?pos \<noteq> - 1"
      by (simp add: r)
    with "1.IH" [OF range False pos] obtain n where n: "1 \<le> n"
      "scan t d ?depth ?pos = ?pos + delta d * int n"
      "depth_after t d ?depth ?pos n = 0"
      "\<forall>m<n. depth_after t d ?depth ?pos m \<noteq> 0"
      "get t (scan t d ?depth ?pos) = closing d"
      by blast
    have "scan t d depth pos = pos + delta d * int (Suc n)"
      using n(2) by (simp add: r algebra_simps)
    moreover have "depth_after t d depth pos (Suc n) = 0"
      using n(3) by (simp only: depth_after_shift)
    moreover have "\<forall>m<Suc n. depth_after t d depth pos m \<noteq> 0"
    proof (intro allI impI)
      fix m assume m: "m < Suc n"
      show "depth_after t d depth pos m \<noteq> 0"
      proof (cases m)
        case 0
        with "1.prems"(1) show ?thesis by simp
      next
        case (Suc k)
        with m n(4) have "depth_after t d ?depth ?pos k \<noteq> 0" by simp
        then show ?thesis unfolding Suc by (simp only: depth_after_shift not_False_eq_True)
      qed
    qed
    moreover have "get t (scan t d depth pos) = closing d"
      using n(5) by (simp add: r)
    ultimately show ?thesis
      by (intro exI [of _ "Suc n"]) simp
  qed
qed

text \<open>
  The depth of the loop is the nesting count of the specification, and the positions the
  loop visits are those of the specification.
\<close>

lemma spec_ahead_delta: "spec_ahead d pos n = pos + delta d * int n"
  by (cases d) simp_all

lemma spec_cells_Suc:
  "spec_cells t d pos (Suc n) = spec_cells t d pos n @ [get t (spec_ahead d pos (Suc n))]"
  by (simp add: spec_cells_def)

lemma spec_nesting_Suc:
  "spec_nesting t d pos (Suc n) =
     scan_depth d (get t (pos + delta d * int (Suc n))) (spec_nesting t d pos n)"
  by (cases d)
     (simp_all only: spec_nesting.simps spec_cells_Suc count_list_append count_list.simps
        spec_ahead_delta scan_depth_def openBracket_def closeBracket_def, auto)

lemma depth_after_nesting: "depth_after t d 1 pos n = spec_nesting t d pos n"
proof (induction n)
  case 0
  show ?case
    by (cases d) (simp_all add: spec_cells_def)
next
  case (Suc n)
  then show ?case
    by (simp only: depth_after.simps spec_nesting_Suc)
qed

lemma closing_match: "closing d = spec_match d"
  by (cases d) (simp_all add: openBracket_def closeBracket_def)

lemma byteToInstruction_brackets:
  "byteToInstruction openBracket = Some CHR ''[''"
  "byteToInstruction closeBracket = Some CHR '']''"
  by (simp_all add: byteToInstruction_def BYTE_TO_INSTRUCTION_def BFF_INSTRUCTIONS_def
      openBracket_def closeBracket_def)

lemma step_taken:
  assumes "\<not> halted s" and "stepCount s < MAX_STEPS" and "taken s d"
  shows "step s =
     (let target = findMatchingBracket (tape s) (ip s) d;
          s1 = s\<lparr>stepCount := stepCount s + 1\<rparr>
      in if target = - 1 then halt_unmatched s1
         else advance (case d of Forward \<Rightarrow> s1\<lparr>ip := target\<rparr>
                       | Backward \<Rightarrow> s1\<lparr>ip := target, loopJumps := loopJumps s + 1\<rparr>))"
proof (cases d)
  case Forward
  with assms(3) have "get (tape s) (ip s) = openBracket" and "get (tape s) (head0 s) = 0"
    by (simp_all add: taken_def)
  with assms(1,2) Forward show ?thesis
    by (simp add: step_def byteToInstruction_brackets exec_def Let_def
        advance_unless_halted_def)
next
  case Backward
  with assms(3) have "get (tape s) (ip s) = closeBracket" and "get (tape s) (head0 s) \<noteq> 0"
    by (simp_all add: taken_def)
  with assms(1,2) Backward show ?thesis
    by (simp add: step_def byteToInstruction_brackets exec_def Let_def
        advance_unless_halted_def)
qed

section \<open>Facts about the soup\<close>

subsection \<open>Loops that fill arrays\<close>

lemma for_loop_Suc: "for_loop (Suc n) body s = body n (for_loop n body s)"
  by (simp add: for_loop_def)

lemma for_loop_0 [simp]: "for_loop 0 body s = s"
  by (simp add: for_loop_def)

lemma for_loop_pair:
  "for_loop n (\<lambda>i (l, r). (f i l, g i r)) (l0, r0) = (for_loop n f l0, for_loop n g r0)"
  by (induction n) (simp_all add: for_loop_Suc)

lemma rd_nth: "k < length xs \<Longrightarrow> rd xs (int k) = xs ! k"
  by (simp add: rd_def)

lemma rd_nth_add: "k + j < length xs \<Longrightarrow> rd xs (int k + int j) = xs ! (k + j)"
  using rd_nth [of "k + j" xs] by simp

lemma rd_nth_diff: "j \<le> k \<Longrightarrow> k - j < length xs \<Longrightarrow> rd xs (int k - int j) = xs ! (k - j)"
  using rd_nth [of "k - j" xs] by (simp add: of_nat_diff)

lemma wr_nth:
  "k < length xs \<Longrightarrow> wr xs j v ! k = (if j = int k then v else xs ! k)"
  by (auto simp: wr_def nth_list_update)

lemma wrap_id: "0 \<le> j \<Longrightarrow> j < int (length t) \<Longrightarrow> wrap t j = j"
  by (simp add: wrap_def size_tape_def js_rem_wrap_id)

lemma set_tape_nth:
  "0 \<le> j \<Longrightarrow> j < int (length t) \<Longrightarrow> k < length t \<Longrightarrow>
   set_tape t j v ! k = (if j = int k then v else t ! k)"
  by (simp add: set_tape_def wrap_id wr_nth)

lemma int_add_eq: "int a + int b = int c \<longleftrightarrow> a + b = c"
  by linarith

lemma length_for_loop:
  assumes "\<And>i s. length (body i s) = length s"
  shows "length (for_loop n body s) = length s"
  by (induction n) (simp_all add: for_loop_Suc assms)

lemma fill_nth:
  assumes "n \<le> length t" and "k < length t"
  shows "for_loop n (\<lambda>i u. set_tape u (int i) (g i)) t ! k = (if k < n then g k else t ! k)"
  using assms(1)
proof (induction n)
  case 0
  show ?case by simp
next
  case (Suc n)
  have len: "length (for_loop n (\<lambda>i u. set_tape u (int i) (g i)) t) = length t"
    by (rule length_for_loop) simp
  from Suc assms(2) show ?case
    by (auto simp: for_loop_Suc set_tape_nth len)
qed

lemma length_getSlice [simp]: "length (getSlice p start) = regionSize p"
  by (simp add: getSlice_def length_for_loop new_Tape_def)

lemma getSlice_nth:
  "k < regionSize p \<Longrightarrow>
   getSlice p start ! k = rd (soup p) (js_rem (start + int k) (int (length (soup p))))"
  by (simp add: getSlice_def fill_nth new_Tape_def)

lemma length_combineTapes [simp]: "length (combineTapes p x y) = 2 * regionSize p"
  by (simp add: combineTapes_def length_for_loop new_Tape_def)

lemma combine_nth:
  assumes "n \<le> R" and "length t = 2 * R" and "k < 2 * R"
  shows "for_loop n (\<lambda>i c. set_tape (set_tape c (int i) (f i)) (int i + int R) (g i)) t ! k =
         (if k < n then f k else if R \<le> k \<and> k < R + n then g (k - R) else t ! k)"
  using assms(1)
proof (induction n)
  case 0
  show ?case by auto
next
  case (Suc n)
  let ?c = "for_loop n (\<lambda>i c. set_tape (set_tape c (int i) (f i)) (int i + int R) (g i)) t"
  have len: "length ?c = 2 * R"
    using assms(2) by (simp add: length_for_loop)
  from Suc assms(3) show ?case
    by (auto simp: for_loop_Suc set_tape_nth len int_add_eq)
qed

lemma combineTapes_nth:
  assumes "k < 2 * regionSize p"
  shows "combineTapes p x y ! k =
         (if k < regionSize p then rd x (int k) else rd y (int (k - regionSize p)))"
  using assms combine_nth [of "regionSize p" "regionSize p" "new_Tape (regionSize p * 2)" k
      "\<lambda>i. rd x (int i)" "\<lambda>i. rd y (int i)"]
  by (auto simp: combineTapes_def new_Tape_def)

lemma combineTapes_append:
  assumes "length x = regionSize p" and "length y = regionSize p"
  shows "combineTapes p x y = x @ y"
proof (rule nth_equalityI)
  show "length (combineTapes p x y) = length (x @ y)"
    using assms by simp
next
  fix k assume "k < length (combineTapes p x y)"
  then have k: "k < 2 * regionSize p" by simp
  show "combineTapes p x y ! k = (x @ y) ! k"
    using assms k by (auto simp: combineTapes_nth [OF k] nth_append rd_nth rd_nth_diff)
qed

lemma splitTape_eq:
  "splitTape p c =
     (for_loop (regionSize p) (\<lambda>i u. set_tape u (int i) (rd c (int i))) (new_Tape (regionSize p)),
      for_loop (regionSize p) (\<lambda>i u. set_tape u (int i) (rd c (int i + int (regionSize p))))
        (new_Tape (regionSize p)))"
  by (simp add: splitTape_def for_loop_pair)

lemma splitTape_halves:
  assumes "length c = 2 * regionSize p"
  shows "splitTape p c = (take (regionSize p) c, drop (regionSize p) c)"
proof -
  have "fst (splitTape p c) = take (regionSize p) c"
  proof (rule nth_equalityI)
    show "length (fst (splitTape p c)) = length (take (regionSize p) c)"
      using assms by (simp add: splitTape_eq length_for_loop new_Tape_def)
  next
    fix k assume "k < length (fst (splitTape p c))"
    then have "k < regionSize p"
      by (simp add: splitTape_eq length_for_loop new_Tape_def)
    with assms show "fst (splitTape p c) ! k = take (regionSize p) c ! k"
      by (simp add: splitTape_eq fill_nth new_Tape_def rd_nth)
  qed
  moreover have "snd (splitTape p c) = drop (regionSize p) c"
  proof (rule nth_equalityI)
    show "length (snd (splitTape p c)) = length (drop (regionSize p) c)"
      using assms by (simp add: splitTape_eq length_for_loop new_Tape_def)
  next
    fix k assume "k < length (snd (splitTape p c))"
    then have k: "k < regionSize p"
      by (simp add: splitTape_eq length_for_loop new_Tape_def)
    have "int k + int (regionSize p) = int (k + regionSize p)"
      by simp
    with assms k show "snd (splitTape p c) ! k = drop (regionSize p) c ! k"
      by (simp add: splitTape_eq fill_nth new_Tape_def rd_nth_add add.commute)
  qed
  ultimately show ?thesis
    by (simp add: prod_eq_iff)
qed

subsection \<open>Pairs without instructions, pairs without writes\<close>

lemma byteToInstruction_None:
  "byteToInstruction b = None \<longleftrightarrow> b \<notin> set instructions"
  by (simp add: byteToInstruction_def BYTE_TO_INSTRUCTION_def BFF_INSTRUCTIONS_def
      instructions_def)

lemma hasInstructions_iff:
  "hasInstructions t \<longleftrightarrow> (\<exists>b \<in> set t. byteToInstruction b \<noteq> None)"
  by (simp add: hasInstructions_def list_ex_iff byteToInstruction_None)

lemma runPair_no_instructions:
  assumes "\<not> hasInstructions (combineTapes p (getSlice p (fst pair)) (getSlice p (snd pair)))"
  shows "runPair p pair =
         (p, \<lparr>steps = 0, reason = Some no_instructions, writes = None, jumps = None\<rparr>)"
  using assms by (simp add: runPair_def Let_def)

lemma runPair_no_writes:
  assumes "or0 (writes (snd (runPair p pair))) = 0"
  shows "fst (runPair p pair) = p"
  using assms by (simp add: runPair_def Let_def or0_def split: if_splits)

lemma worker_pair_gate:
  assumes "worker_pair R result i pair (s, tot) = Some (s', tot')"
    and "getUint32 result (i * (28 + R * 2) + 12) = 0"
    and "getUint32 result (i * (28 + R * 2) + 16) = 0"
  shows "s' = s"
  using assms by (simp add: worker_pair_def Let_def split: if_splits)

subsection \<open>Slices of the soup\<close>

lemma getSlice_map:
  "getSlice p start =
     map (\<lambda>i. rd (soup p) (js_rem (start + int i) (int (length (soup p))))) [0..<regionSize p]"
  by (rule nth_equalityI) (simp_all add: getSlice_nth)

lemma js_rem_id: "0 \<le> i \<Longrightarrow> i < n \<Longrightarrow> js_rem i n = i"
  by (simp add: js_rem_def)

lemma copy_nth:
  assumes "0 \<le> start" and "start + int n \<le> int (length s)" and "k < length s"
  shows "for_loop n (\<lambda>i u. wr u (js_rem (start + int i) (int (length u))) (rd tp (int i))) s ! k =
         (if start \<le> int k \<and> int k < start + int n then rd tp (int k - start) else s ! k)"
  using assms(2)
proof (induction n)
  case 0
  show ?case by auto
next
  case (Suc n)
  let ?u = "for_loop n (\<lambda>i u. wr u (js_rem (start + int i) (int (length u))) (rd tp (int i))) s"
  have len: "length ?u = length s"
    by (rule length_for_loop) simp
  have idx: "js_rem (start + int n) (int (length s)) = start + int n"
    using assms(1) Suc.prems by (simp add: js_rem_id)
  from Suc assms(3) show ?case
    by (auto simp: for_loop_Suc len idx wr_nth intro!: arg_cong [where f = "rd tp"])
qed

lemma length_soup_setSlice [simp]: "length (soup (setSlice p start tp)) = length (soup p)"
  by (simp add: setSlice_def length_for_loop)

lemma setSlice_fields [simp]:
  "regionSize (setSlice p start tp) = regionSize p" "width (setSlice p start tp) = width p"
  "height (setSlice p start tp) = height p"
  by (simp_all add: setSlice_def)

lemma setSlice_nth:
  assumes "0 \<le> start" and "start + int (regionSize p) \<le> int (length (soup p))"
    and "k < length (soup p)"
  shows "soup (setSlice p start tp) ! k =
         (if start \<le> int k \<and> int k < start + int (regionSize p)
          then rd tp (int k - start) else soup p ! k)"
  using copy_nth [OF assms, of tp] by (simp add: setSlice_def)

lemma setSlice_append:
  assumes "start + regionSize p \<le> length (soup p)" and "length tp = regionSize p"
  shows "soup (setSlice p (int start) tp) =
         take start (soup p) @ tp @ drop (start + regionSize p) (soup p)"
proof (rule nth_equalityI)
  show "length (soup (setSlice p (int start) tp)) =
        length (take start (soup p) @ tp @ drop (start + regionSize p) (soup p))"
    using assms by simp
next
  fix k assume "k < length (soup (setSlice p (int start) tp))"
  then have k: "k < length (soup p)" by simp
  have "soup (setSlice p (int start) tp) ! k =
        (if start \<le> k \<and> k < start + regionSize p then rd tp (int k - int start) else soup p ! k)"
    using setSlice_nth [of "int start" p k tp] assms k by simp
  also have "\<dots> = (take start (soup p) @ tp @ drop (start + regionSize p) (soup p)) ! k"
    using assms k by (auto simp: nth_append rd_nth_diff min_def add.commute)
  finally show "soup (setSlice p (int start) tp) ! k =
        (take start (soup p) @ tp @ drop (start + regionSize p) (soup p)) ! k" .
qed

subsection \<open>Write-back\<close>

lemma region_nth: "start + R \<le> length s \<Longrightarrow> j < R \<Longrightarrow> region s (int start) R ! j = s ! (start + j)"
  by (simp add: region_def)

lemma length_region: "0 \<le> start \<Longrightarrow> start + int R \<le> int (length s) \<Longrightarrow> length (region s start R) = R"
  by (auto simp: region_def)

lemma region_eqI:
  assumes "0 \<le> start" and "start + int R \<le> int (length s)" and "length x = R"
    and "\<And>j. j < R \<Longrightarrow> s ! (nat start + j) = x ! j"
  shows "region s start R = x"
proof (rule nth_equalityI)
  show "length (region s start R) = length x"
    using assms by (simp add: length_region)
next
  fix j assume "j < length (region s start R)"
  then have "j < R" using assms by (simp add: length_region)
  moreover have "nat start + R \<le> length s" using assms by linarith
  ultimately show "region s start R ! j = x ! j"
    using assms(4) [of j] by (simp add: region_def)
qed

lemma setSlice_twice:
  assumes sep: "separate (soup p) (regionSize p) (a, b)"
    and x: "length x = regionSize p" and y: "length y = regionSize p"
  shows "region (soup (setSlice (setSlice p a x) b y)) a (regionSize p) = x"
    and "region (soup (setSlice (setSlice p a x) b y)) b (regionSize p) = y"
proof -
  let ?R = "regionSize p"
  let ?p = "setSlice p a x"
  from sep have a: "0 \<le> a" "a + int ?R \<le> int (length (soup p))"
    and b: "0 \<le> b" "b + int ?R \<le> int (length (soup p))"
    and ab: "\<bar>a - b\<bar> \<ge> int ?R"
    by (simp_all add: separate_def)
  have outer: "soup (setSlice ?p b y) ! k =
      (if b \<le> int k \<and> int k < b + int ?R then rd y (int k - b) else soup ?p ! k)"
    if "k < length (soup p)" for k
    using setSlice_nth [of b ?p k y] b that by simp
  have inner: "soup ?p ! k =
      (if a \<le> int k \<and> int k < a + int ?R then rd x (int k - a) else soup p ! k)"
    if "k < length (soup p)" for k
    using setSlice_nth [of a p k x] a that by simp
  show "region (soup (setSlice ?p b y)) a ?R = x"
  proof (rule region_eqI)
    fix j assume j: "j < ?R"
    then have k: "nat a + j < length (soup p)" using a by linarith
    have "\<not> (b \<le> int (nat a + j) \<and> int (nat a + j) < b + int ?R)"
      using a ab j by auto
    moreover have "int (nat a + j) - a = int j"
      using a by simp
    ultimately show "soup (setSlice ?p b y) ! (nat a + j) = x ! j"
      using outer [OF k] inner [OF k] a j x by (auto simp: rd_nth)
  qed (use a x in simp_all)
  show "region (soup (setSlice ?p b y)) b ?R = y"
  proof (rule region_eqI)
    fix j assume j: "j < ?R"
    then have k: "nat b + j < length (soup p)" using b by linarith
    have "int (nat b + j) - b = int j"
      using b by simp
    then show "soup (setSlice ?p b y) ! (nat b + j) = y ! j"
      using outer [OF k] b j y by (simp add: rd_nth)
  qed (use b y in simp_all)
qed

lemma two_writes_nth:
  assumes sep: "separate s R (a, b)" and "n \<le> R" and "k < length s"
  shows "for_loop n (\<lambda>j u. wr (wr u (a + int j) (f j)) (b + int j) (g j)) s ! k =
         (if a \<le> int k \<and> int k < a + int n then f (nat (int k - a))
          else if b \<le> int k \<and> int k < b + int n then g (nat (int k - b))
          else s ! k)"
  using assms(2)
proof (induction n)
  case 0
  show ?case by auto
next
  case (Suc n)
  let ?u = "for_loop n (\<lambda>j u. wr (wr u (a + int j) (f j)) (b + int j) (g j)) s"
  have len: "length ?u = length s"
    by (rule length_for_loop) simp
  from sep have ab: "\<bar>a - b\<bar> \<ge> int R"
    by (simp add: separate_def)
  have fa: "a + int n = int k \<Longrightarrow> f n = f (nat (int k - a))"
    and gb: "b + int n = int k \<Longrightarrow> g n = g (nat (int k - b))"
    by (auto intro!: arg_cong [where f = f] arg_cong [where f = g])
  from Suc assms(3) ab show ?case
    by (auto simp: for_loop_Suc len wr_nth fa gb)
qed

lemma writeBack_regions:
  assumes sep: "separate s R (a, b)" and "j < R"
  shows "writeBack s R (a, b) result off ! (nat a + j) = rd result (int (off + j))"
    and "writeBack s R (a, b) result off ! (nat b + j) = rd result (int (off + R + j))"
proof -
  from sep have a: "0 \<le> a" "a + int R \<le> int (length s)"
    and b: "0 \<le> b" "b + int R \<le> int (length s)"
    and ab: "\<bar>a - b\<bar> \<ge> int R"
    by (simp_all add: separate_def)
  have ka: "nat a + j < length s" and kb: "nat b + j < length s"
    using a b assms(2) by linarith+
  have na: "nat (int (nat a + j) - a) = j" and nb: "nat (int (nat b + j) - b) = j"
    using a b by simp_all
  show "writeBack s R (a, b) result off ! (nat a + j) = rd result (int (off + j))"
    using two_writes_nth [OF sep order_refl ka,
        of "\<lambda>j. rd result (int (off + j))" "\<lambda>j. rd result (int (off + R + j))"] a assms(2)
    by (simp only: writeBack_def fst_conv snd_conv na) auto
  have "\<not> (a \<le> int (nat b + j) \<and> int (nat b + j) < a + int R)"
    using b ab assms(2) by auto
  then show "writeBack s R (a, b) result off ! (nat b + j) = rd result (int (off + R + j))"
    using two_writes_nth [OF sep order_refl kb,
        of "\<lambda>j. rd result (int (off + j))" "\<lambda>j. rd result (int (off + R + j))"] b assms(2)
    by (simp only: writeBack_def fst_conv snd_conv nb) auto
qed

lemma runPair_written:
  assumes "0 < or0 (writes (snd (runPair p pair)))"
  shows "fst (runPair p pair) =
     (let final = tape (run (new_BFFInterpreter
                    (combineTapes p (getSlice p (fst pair)) (getSlice p (snd pair)))));
          left = fst (splitTape p final); right = snd (splitTape p final)
      in if costSwap p pair left right < costNoSwap p pair left right
         then setSlice (setSlice p (fst pair) right) (snd pair) left
         else setSlice (setSlice p (fst pair) left) (snd pair) right)"
  using assms by (simp add: runPair_def Let_def or0_def split: if_splits)

lemma worker_pair_written:
  assumes "worker_pair R result i pair (s, tot) = Some (s', tot')"
    and "0 < getUint32 result (i * (28 + R * 2) + 12) \<or>
         0 < getUint32 result (i * (28 + R * 2) + 16)"
  shows "s' = writeBack s R pair result (i * (28 + R * 2) + 28)"
  using assms by (auto simp: worker_pair_def Let_def split: if_splits)

subsection \<open>The example with a swap\<close>

lemma swap_example_fields:
  "regionSize swap_example = 2" "width swap_example = 2" "height swap_example = 8"
  "neighborsPerSide swap_example = 2"
  "soup swap_example = [0x2B, 0x2C, 1, 1, 0, 0, 0x2C, 0x2C, 1, 1, 0x2C, 0x2C, 0, 0, 1, 1]"
  by (simp_all add: swap_example_def)

lemma swap_example_tape:
  "combineTapes swap_example (getSlice swap_example 0) (getSlice swap_example 8) =
     [0x2B, 0x2C, 1, 1]"
proof -
  have "getSlice swap_example 0 = [0x2B, 0x2C]" and "getSlice swap_example 8 = [1, 1]"
    by (simp_all add: swap_example_fields getSlice_map array_eval)
  then show ?thesis
    by (simp add: combineTapes_append swap_example_fields)
qed

lemma swap_example_run:
  "run (new_BFFInterpreter [0x2B, 0x2C, 1, 1]) =
     \<lparr>tape = [0x2C, 0x2C, 1, 1], ip = 4, head0 = 0, head1 = 0, stepCount = 4,
      writeCount = 2, loopJumps = 0, halted = True, haltReason = Some end_of_tape\<rparr>"
  by (simp add: interpreter_eval tape_eval array_eval)

lemma swap_example_bigrams:
  "bigram 1 1 = 257" "bigram 1 0 = 256" "bigram 0 1 = 1" "bigram 0 0 = 0"
  "bigram 44 44 = 11308" "bigram 44 0 = 11264" "bigram 0 44 = 44" "bigram 1 44 = 300"
  "bigram 44 1 = 11265"
  by (simp_all add: bigram_def)

lemma swap_example_neighbors:
  "getNeighborRows swap_example 0 = ([[1, 1], [0, 0]], [[1, 1], [0, 0]])"
  "getNeighborRows swap_example 8 = ([[0x2C, 0x2C], [0, 0]], [[0x2C, 0x2C], [0, 0]])"
  by (simp add: getNeighborRows_def swap_example_fields upt_eval,
      simp add: js_rem_def js_slice_def)+

lemma swap_example_costs:
  "costSwap swap_example (0, 8) [0x2C, 0x2C] [1, 1] = 8"
  "costNoSwap swap_example (0, 8) [0x2C, 0x2C] [1, 1] = 12"
  by (simp_all add: costSwap_def costNoSwap_def swap_example_neighbors compressionCost_def
      upt_eval rd_def swap_example_bigrams)

lemma swap_example_runPair:
  "runPair swap_example (0, 8) =
     (setSlice (setSlice swap_example 0 [1, 1]) 8 [0x2C, 0x2C],
      \<lparr>steps = 4, reason = Some end_of_tape, writes = Some 2, jumps = Some 0\<rparr>)"
  by (simp add: runPair_def swap_example_tape swap_example_run swap_example_costs
      hasInstructions_def instructions_def splitTape_halves swap_example_fields)

lemma swap_example_soup:
  "soup (fst (runPair swap_example (0, 8))) =
     [1, 1, 1, 1, 0, 0, 0x2C, 0x2C, 0x2C, 0x2C, 0x2C, 0x2C, 0, 0, 1, 1]"
proof -
  have "soup (setSlice swap_example (int 0) [1, 1]) =
        [1, 1, 1, 1, 0, 0, 0x2C, 0x2C, 1, 1, 0x2C, 0x2C, 0, 0, 1, 1]"
    by (subst setSlice_append) (simp_all add: swap_example_fields)
  moreover have "soup (setSlice (setSlice swap_example (int 0) [1, 1]) (int 8) [0x2C, 0x2C]) =
     take 8 (soup (setSlice swap_example (int 0) [1, 1])) @ [0x2C, 0x2C] @
     drop (8 + 2) (soup (setSlice swap_example (int 0) [1, 1]))"
    by (subst setSlice_append) (simp_all add: swap_example_fields)
  ultimately show ?thesis
    by (simp add: swap_example_runPair)
qed

lemma worker_example_pair:
  "worker_pair 1 worker_example 0 (0, 2) ([0, 0, 0, 0], no_totals) =
     Some ([7, 0, 9, 0],
           \<lparr>totalHead0 = 0, totalHead1 = 0, totalMath = 1, totalCopy = 0, totalLoop = 0\<rparr>)"
  by (simp add: worker_pair_def worker_example_def no_totals_def getUint32_def writeBack_def
      for_loop_def rd_def wr_def)

text \<open>
  When the two regions of a pair overlap, the second write of the worker's loop lands on
  the first: with both regions at 0, region A ends up with the second half of the tape.
\<close>

lemma writeBack_overlap_example: "writeBack [0, 0, 0, 0] 1 (0, 0) worker_example 28 = [9, 0, 0, 0]"
  by (simp add: writeBack_def worker_example_def for_loop_def rd_def wr_def)

subsection \<open>The examples without instructions and without writes\<close>

lemma inert_example_fields:
  "regionSize inert_example = 2" "soup inert_example = [1, 2, 3, 4]"
  by (simp_all add: inert_example_def)

lemma inert_example_tape:
  "combineTapes inert_example (getSlice inert_example 0) (getSlice inert_example 2) =
     [1, 2, 3, 4]"
proof -
  have "getSlice inert_example 0 = [1, 2]" and "getSlice inert_example 2 = [3, 4]"
    by (simp_all add: inert_example_fields getSlice_map array_eval)
  then show ?thesis
    by (simp add: combineTapes_append inert_example_fields)
qed

lemma quiet_example_fields:
  "regionSize quiet_example = 2" "soup quiet_example = [0x3E, 0x3C, 1, 1]"
  by (simp_all add: quiet_example_def)

lemma quiet_example_tape:
  "combineTapes quiet_example (getSlice quiet_example 0) (getSlice quiet_example 2) =
     [0x3E, 0x3C, 1, 1]"
proof -
  have "getSlice quiet_example 0 = [0x3E, 0x3C]" and "getSlice quiet_example 2 = [1, 1]"
    by (simp_all add: quiet_example_fields getSlice_map array_eval)
  then show ?thesis
    by (simp add: combineTapes_append quiet_example_fields)
qed

lemma quiet_example_run:
  "run (new_BFFInterpreter [0x3E, 0x3C, 1, 1]) =
     \<lparr>tape = [0x3E, 0x3C, 1, 1], ip = 4, head0 = 0, head1 = 0, stepCount = 4,
      writeCount = 0, loopJumps = 0, halted = True, haltReason = Some end_of_tape\<rparr>"
  by (simp add: interpreter_eval tape_eval array_eval)

lemma quiet_example_runPair:
  "runPair quiet_example (0, 2) =
     (quiet_example,
      \<lparr>steps = 4, reason = Some end_of_tape, writes = Some 0, jumps = Some 0\<rparr>)"
  by (simp add: runPair_def quiet_example_tape quiet_example_run hasInstructions_def
      instructions_def)

lemma worker_quiet_pair:
  "worker_pair 1 worker_quiet 0 (0, 2) ([0, 0, 0, 0], no_totals) =
     Some ([0, 0, 0, 0],
           \<lparr>totalHead0 = 1, totalHead1 = 0, totalMath = 0, totalCopy = 0, totalLoop = 0\<rparr>)"
  by (simp add: worker_pair_def worker_quiet_def no_totals_def getUint32_def)

subsection \<open>The product of a draw and an integer\<close>

text \<open>
  The rounding of the product cannot reach \<open>n\<close>: the exact product is at most
  \<open>n - n / 2 ^ e\<close>, and when it has more than 53 bits, \<open>s\<close> too many, then \<open>n\<close> is above
  \<open>2 ^ (s - 1)\<close>, half the distance of two neighbours among the rounded numbers, of which
  \<open>n\<close> is one.
\<close>

lemma bits_eval:
  "bits 0 = 0" "bits (Suc 0) = Suc 0" "bits (numeral k) = Suc (bits (numeral k div 2))"
  by (subst bits.simps, simp)+

lemmas random_eval = random_times_def draw_def bits_eval round_even_def Let_def value_of_def
  draw_zero_def draw_quarter_def draw_half_def draw_three_quarters_def

lemma bits_upper: "n < 2 ^ bits n"
proof (induction n rule: bits.induct)
  case (1 n)
  show ?case
  proof (cases "n = 0")
    case True
    then show ?thesis by simp
  next
    case False
    with 1 have "n div 2 < 2 ^ bits (n div 2)" by simp
    then have "n < 2 * 2 ^ bits (n div 2)" by linarith
    moreover from False have "bits n = Suc (bits (n div 2))"
      by (subst bits.simps) simp
    ultimately show ?thesis by simp
  qed
qed

lemma bits_lower: "n \<noteq> 0 \<Longrightarrow> 2 ^ (bits n - 1) \<le> n"
proof (induction n rule: bits.induct)
  case (1 n)
  from "1.prems" have b: "bits n = Suc (bits (n div 2))"
    by (subst bits.simps) simp
  show ?case
  proof (cases "n div 2 = 0")
    case True
    then have "bits (n div 2) = 0" by (subst bits.simps) simp
    with "1.prems" b show ?thesis by simp
  next
    case False
    with "1.IH" "1.prems" have "2 ^ (bits (n div 2) - 1) \<le> n div 2" by simp
    then have "2 * 2 ^ (bits (n div 2) - 1) \<le> n" by linarith
    moreover from False have "bits (n div 2) \<noteq> 0"
      by (subst bits.simps) simp
    then have "(2::nat) ^ bits (n div 2) = 2 * 2 ^ (bits (n div 2) - 1)"
      by (cases "bits (n div 2)") simp_all
    ultimately show ?thesis
      by (simp add: b)
  qed
qed

lemma round_even_le: "round_even M s \<le> M div 2 ^ s + 1"
  by (simp add: round_even_def Let_def)

lemma round_even_up:
  assumes "round_even M s \<noteq> M div 2 ^ s"
  shows "2 ^ s \<le> 2 * (M mod 2 ^ s)"
  using assms by (auto simp: round_even_def Let_def split: if_splits)

lemma round_even_0: "round_even M 0 = M"
  by (simp add: round_even_def)

lemma rounded_product_below:
  assumes m53: "m < 2 ^ 53" and me: "m < 2 ^ e" and n1: "1 \<le> n" and n53: "n \<le> 2 ^ 53"
  shows "round_even (m * n) (bits (m * n) - 53) * 2 ^ (bits (m * n) - 53) < n * 2 ^ e"
proof -
  define M where "M = m * n"
  define s where "s = bits M - 53"
  have Mlt: "M < n * 2 ^ e"
    using me n1 by (simp add: M_def mult.commute)
  have Mn: "M + n \<le> n * 2 ^ e"
  proof -
    from me have "Suc m \<le> 2 ^ e" by simp
    then have "Suc m * n \<le> 2 ^ e * n" by (rule mult_le_mono1)
    then show ?thesis by (simp add: M_def mult.commute)
  qed
  show ?thesis
  proof (cases "s = 0")
    case True
    with Mlt show ?thesis
      by (simp add: M_def [symmetric] s_def [symmetric] round_even_0)
  next
    case False
    then have b: "bits M = s + 53"
      by (simp add: s_def)
    then have M0: "M \<noteq> 0"
      by (subst (asm) bits.simps) (simp split: if_splits)
    from bits_lower [OF M0] b have low: "2 ^ (s + 52) \<le> M"
      by (simp add: add.commute)
    obtain s' where s': "s = Suc s'"
      using False by (cases s) simp_all
    have nbig: "2 ^ s' < n"
    proof (rule ccontr)
      assume "\<not> 2 ^ s' < n"
      then have "n \<le> 2 ^ s'" by simp
      then have "m * n \<le> m * 2 ^ s'" by (rule mult_le_mono2)
      also from m53 have "\<dots> < 2 ^ 53 * 2 ^ s'" by simp
      also have "\<dots> = 2 ^ (s + 52)" by (simp add: s' power_add)
      finally show False using low by (simp add: M_def)
    qed
    have se: "s \<le> e"
    proof -
      have "n * 2 ^ e \<le> 2 ^ 53 * 2 ^ e"
        using n53 by (rule mult_le_mono1)
      with Mlt have "M < 2 ^ 53 * 2 ^ e"
        by (rule less_le_trans)
      with low have "(2::nat) ^ (s + 52) < 2 ^ 53 * 2 ^ e"
        by (rule le_less_trans)
      then have "(2::nat) ^ (s + 52) < 2 ^ (53 + e)"
        by (simp only: power_add)
      then have "s + 52 < 53 + e"
        by (simp only: power_strict_increasing_iff [of "2::nat"] one_less_numeral_iff semiring_norm)
      then show ?thesis by simp
    qed
    define K where "K = n * 2 ^ (e - s)"
    have N: "n * 2 ^ e = K * 2 ^ s"
      using se by (simp add: K_def power_add [symmetric])
    let ?q = "M div 2 ^ s"
    let ?r = "M mod 2 ^ s"
    have parts: "M = ?q * 2 ^ s + ?r"
      by (rule div_mult_mod_eq [symmetric])
    have qK: "?q < K"
    proof -
      from Mlt N have "M < K * 2 ^ s" by simp
      then show ?thesis
        by (simp add: less_mult_imp_div_less)
    qed
    have "round_even M s < K"
    proof (cases "round_even M s = ?q")
      case True
      with qK show ?thesis by simp
    next
      case up: False
      from round_even_up [OF up] have half: "2 ^ s \<le> 2 * ?r" .
      show ?thesis
      proof (rule ccontr)
        assume "\<not> round_even M s < K"
        with round_even_le [of M s] qK have q: "K = ?q + 1"
          by simp
        from Mn N parts have "?q * 2 ^ s + ?r + n \<le> K * 2 ^ s"
          by simp
        then have "?r + n \<le> 2 ^ s"
          by (simp add: q)
        with half have "2 * n \<le> 2 ^ s"
          by simp
        then have "n \<le> 2 ^ s'"
          by (simp add: s')
        with nbig show False by simp
      qed
    qed
    then have "round_even M s * 2 ^ s < K * 2 ^ s"
      by simp
    then show ?thesis
      by (simp add: M_def [symmetric] s_def [symmetric] N)
  qed
qed

lemma random_index_range:
  assumes d: "double01 d" and n: "1 \<le> n" "n \<le> 2 ^ 53"
  shows "0 \<le> \<lfloor>random_times d n\<rfloor>" and "\<lfloor>random_times d n\<rfloor> \<le> n - 1"
proof -
  define M where "M = mant d * nat \<bar>n\<bar>"
  define R where "R = round_even M (bits M - 53) * 2 ^ (bits M - 53)"
  from n have sgn: "sgn n = 1" by simp
  have rt: "random_times d n = real R / 2 ^ expo d"
    by (simp add: random_times_def Let_def M_def R_def sgn)
  then show "0 \<le> \<lfloor>random_times d n\<rfloor>"
    by simp
  from d have m: "mant d < 2 ^ 53" "mant d < 2 ^ expo d"
    by (simp_all add: double01_def)
  from n have n': "1 \<le> nat \<bar>n\<bar>" "nat \<bar>n\<bar> \<le> 2 ^ 53"
    by (simp_all add: nat_le_iff)
  from rounded_product_below [OF m n'] have "R < nat \<bar>n\<bar> * 2 ^ expo d"
    by (simp add: R_def M_def)
  then have "real R < real (nat \<bar>n\<bar> * 2 ^ expo d)"
    by (simp only: of_nat_less_iff)
  also have "\<dots> = of_int n * 2 ^ expo d"
    using n by simp
  finally have "real R / 2 ^ expo d < of_int n"
    by (simp add: divide_less_eq)
  then have "\<lfloor>random_times d n\<rfloor> < n"
    by (simp add: rt floor_less_iff)
  then show "\<lfloor>random_times d n\<rfloor> \<le> n - 1"
    by simp
qed

subsection \<open>Mutation\<close>

lemma mutateSlice_frame:
  assumes "mutateSlice rate start is s rs = Some (s', rs')"
  shows "length s' = length s \<and>
         (\<forall>k<length s. s' ! k \<noteq> s ! k \<longrightarrow>
            (\<exists>i\<in>set is. js_rem (start + int i) (int (length s)) = int k))"
  using assms
proof (induction rate start "is" s rs rule: mutateSlice.induct)
  case (1 rate start s rs)
  then show ?case by simp
next
  case (2 rate start i "is" s)
  then show ?case by simp
next
  case (3 rate start i "is" s r rs)
  show ?case
  proof (cases "value_of r < rate")
    case False
    with "3.prems" have "mutateSlice rate start is s rs = Some (s', rs')"
      by simp
    with "3.IH"(2) False show ?thesis
      by auto
  next
    case True
    with "3.prems" obtain v rs1 where rs: "rs = v # rs1"
      and rec: "mutateSlice rate start is
                  (wr s (js_rem (start + int i) (int (length s))) (of_int \<lfloor>random_times v 256\<rfloor>)) rs1 =
                Some (s', rs')"
      by (auto split: list.splits)
    let ?s = "wr s (js_rem (start + int i) (int (length s))) (of_int \<lfloor>random_times v 256\<rfloor>)"
    from "3.IH"(1) [OF True rs rec]
    have len: "length s' = length s"
      and frame: "\<forall>k<length s. s' ! k \<noteq> ?s ! k \<longrightarrow>
            (\<exists>j\<in>set is. js_rem (start + int j) (int (length s)) = int k)"
      by simp_all
    have "\<exists>j\<in>set (i # is). js_rem (start + int j) (int (length s)) = int k"
      if k: "k < length s" and changed: "s' ! k \<noteq> s ! k" for k
    proof (cases "s' ! k = ?s ! k")
      case True
      with changed have "?s ! k \<noteq> s ! k" by simp
      with k have "js_rem (start + int i) (int (length s)) = int k"
        by (simp add: wr_nth split: if_splits)
      then show ?thesis by simp
    next
      case False
      with frame k show ?thesis by auto
    qed
    with len show ?thesis by blast
  qed
qed

lemma selected_Cons:
  "selected (pair # ps) R len k \<longleftrightarrow>
     (\<exists>i<R. js_rem (fst pair + int i) (int len) = int k \<or>
             js_rem (snd pair + int i) (int len) = int k) \<or> selected ps R len k"
  by (auto simp: selected_def list_ex_iff)

lemma mutatePairs_frame:
  assumes "mutatePairs rate R ps s rs = Some (s', rs')"
  shows "length s' = length s \<and>
         (\<forall>k<length s. s' ! k \<noteq> s ! k \<longrightarrow> selected ps R (length s) k)"
  using assms
proof (induction ps arbitrary: s rs)
  case Nil
  then show ?case by simp
next
  case (Cons pair ps)
  obtain a b where pair: "pair = (a, b)"
    by (cases pair)
  from Cons.prems obtain s1 rs1 s2 rs2
    where A: "mutateSlice rate a [0..<R] s rs = Some (s1, rs1)"
      and B: "mutateSlice rate b [0..<R] s1 rs1 = Some (s2, rs2)"
      and rest: "mutatePairs rate R ps s2 rs2 = Some (s', rs')"
    by (auto simp: pair split: option.splits)
  from mutateSlice_frame [OF A] have l1: "length s1 = length s"
    and f1: "\<forall>k<length s. s1 ! k \<noteq> s ! k \<longrightarrow>
               (\<exists>i\<in>set [0..<R]. js_rem (a + int i) (int (length s)) = int k)"
    by simp_all
  from mutateSlice_frame [OF B] l1 have l2: "length s2 = length s"
    and f2: "\<forall>k<length s. s2 ! k \<noteq> s1 ! k \<longrightarrow>
               (\<exists>i\<in>set [0..<R]. js_rem (b + int i) (int (length s)) = int k)"
    by simp_all
  from Cons.IH [OF rest] l2 have l3: "length s' = length s"
    and f3: "\<forall>k<length s. s' ! k \<noteq> s2 ! k \<longrightarrow> selected ps R (length s) k"
    by simp_all
  have "selected (pair # ps) R (length s) k" if k: "k < length s" and ch: "s' ! k \<noteq> s ! k" for k
  proof -
    from ch have "s' ! k \<noteq> s2 ! k \<or> s2 ! k \<noteq> s1 ! k \<or> s1 ! k \<noteq> s ! k"
      by auto
    with f1 f2 f3 k show ?thesis
      unfolding selected_Cons pair by fastforce
  qed
  with l3 show ?case by blast
qed

lemma mutateSelected_frame:
  assumes "mutateSelected p rs = Some (p', rs')"
  shows "p' = p\<lparr>soup := soup p'\<rparr> \<and> length (soup p') = length (soup p) \<and>
         (\<forall>k<length (soup p). soup p' ! k \<noteq> soup p ! k \<longrightarrow>
            selected (currentPairs p) (regionSize p) (length (soup p)) k)"
proof (cases "mutationRate p \<le> 0")
  case True
  with assms show ?thesis
    by (simp add: mutateSelected_def)
next
  case False
  with assms obtain s where m: "mutatePairs (mutationRate p) (regionSize p) (currentPairs p)
      (soup p) rs = Some (s, rs')" and p': "p' = p\<lparr>soup := s\<rparr>"
    by (auto simp: mutateSelected_def split: option.splits)
  from mutatePairs_frame [OF m] p' show ?thesis
    by simp
qed

lemma generatePairs_fields:
  assumes "generatePairs n p rs = Some (p1, rs1)"
  shows "p1 = p\<lparr>currentPairs := currentPairs p1\<rparr>"
  using assms
proof (induction n arbitrary: p rs)
  case 0
  then show ?case by simp
next
  case (Suc n)
  from Suc.prems obtain pair rs' where
    "generatePairs n (p\<lparr>currentPairs := currentPairs p @ [pair]\<rparr>) rs' = Some (p1, rs1)"
    by (auto split: option.splits)
  from Suc.IH [OF this] show ?case
    by simp
qed


lemma dispatch_fields:
  "soup (dispatch p) = soup p" "currentPairs (dispatch p) = currentPairs p"
  "regionSize (dispatch p) = regionSize p" "mutationRate (dispatch p) = mutationRate p"
  "pendingExecutions (dispatch p) = pendingExecutions p + 1"
  "workerPool (dispatch p) =
     executeBatch (workerPool p) (currentPairs p) (head1Offset p) (maxSteps p)"
  by (simp_all add: dispatch_def Let_def)

lemma soupStep_wasm_parts:
  assumes "pendingExecutions p < maxPendingExecutions p"
    and "soupStep_wasm p rs = Some (p', rs')"
  shows "\<exists>p1 rs1. generatePairs (pairsPerStep p) (p\<lparr>currentPairs := []\<rparr>) rs = Some (p1, rs1) \<and>
           mutateSelected (dispatch p1) rs1 = Some (p', rs')"
  using assms by (auto simp: soupStep_wasm_def split: option.splits)

lemma soupStep_wasm_frame:
  assumes "pendingExecutions p < maxPendingExecutions p"
    and "soupStep_wasm p rs = Some (p', rs')"
  shows "pendingExecutions p' = pendingExecutions p + 1"
    and "workerPool p' =
           executeBatch (workerPool p) (currentPairs p') (head1Offset p) (maxSteps p)"
    and "length (soup p') = length (soup p)"
    and "\<forall>k<length (soup p). soup p' ! k \<noteq> soup p ! k \<longrightarrow>
           selected (currentPairs p') (regionSize p) (length (soup p)) k"
    and "mutationRate p \<le> 0 \<longrightarrow> soup p' = soup p"
proof -
  from soupStep_wasm_parts [OF assms] obtain p1 rs1
    where gen: "generatePairs (pairsPerStep p) (p\<lparr>currentPairs := []\<rparr>) rs = Some (p1, rs1)"
      and mut: "mutateSelected (dispatch p1) rs1 = Some (p', rs')"
    by blast
  from generatePairs_fields [OF gen] have p1: "p1 = p\<lparr>currentPairs := currentPairs p1\<rparr>"
    by simp
  have f: "soup p1 = soup p" "regionSize p1 = regionSize p" "mutationRate p1 = mutationRate p"
    "pendingExecutions p1 = pendingExecutions p" "workerPool p1 = workerPool p"
    "head1Offset p1 = head1Offset p" "maxSteps p1 = maxSteps p"
    by (subst p1, simp)+
  from mutateSelected_frame [OF mut]
  have p': "p' = (dispatch p1)\<lparr>soup := soup p'\<rparr>"
    and len: "length (soup p') = length (soup (dispatch p1))"
    and frame: "\<forall>k<length (soup (dispatch p1)). soup p' ! k \<noteq> soup (dispatch p1) ! k \<longrightarrow>
            selected (currentPairs (dispatch p1)) (regionSize (dispatch p1))
              (length (soup (dispatch p1))) k"
    by simp_all
  have g: "pendingExecutions p' = pendingExecutions (dispatch p1)"
    "workerPool p' = workerPool (dispatch p1)" "currentPairs p' = currentPairs (dispatch p1)"
    by (subst p', simp)+
  show "pendingExecutions p' = pendingExecutions p + 1"
    by (simp add: g dispatch_fields f)
  show "workerPool p' =
           executeBatch (workerPool p) (currentPairs p') (head1Offset p) (maxSteps p)"
    by (simp add: g dispatch_fields f)
  show "length (soup p') = length (soup p)"
    using len by (simp add: dispatch_fields f)
  show "\<forall>k<length (soup p). soup p' ! k \<noteq> soup p ! k \<longrightarrow>
           selected (currentPairs p') (regionSize p) (length (soup p)) k"
    using frame by (simp add: g dispatch_fields f)
  show "mutationRate p \<le> 0 \<longrightarrow> soup p' = soup p"
    using mut by (auto simp: mutateSelected_def dispatch_fields f)
qed

lemma runPair_fields:
  "fst (runPair p pair) = p\<lparr>soup := soup (fst (runPair p pair))\<rparr>"
  "length (soup (fst (runPair p pair))) = length (soup p)"
  by (simp_all add: runPair_def Let_def setSlice_def length_for_loop)

lemma runPairs_fields:
  assumes "runPairs n p results rs = Some (p1, results1, rs1)"
  shows "regionSize p1 = regionSize p \<and> length (soup p1) = length (soup p)"
  using assms
proof (induction n arbitrary: p results rs)
  case 0
  then show ?case by simp
next
  case (Suc n)
  from Suc.prems obtain pair rs' where
    rec: "runPairs n (fst (runPair (p\<lparr>currentPairs := currentPairs p @ [pair]\<rparr>) pair))
            (results @ [snd (runPair (p\<lparr>currentPairs := currentPairs p @ [pair]\<rparr>) pair)]) rs' =
          Some (p1, results1, rs1)"
    by (auto simp: case_prod_unfold Let_def split: option.splits)
  let ?q = "p\<lparr>currentPairs := currentPairs p @ [pair]\<rparr>"
  have "regionSize (fst (runPair ?q pair)) = regionSize ?q"
    by (subst runPair_fields(1)) simp
  with Suc.IH [OF rec] runPair_fields(2) [of ?q pair] show ?case
    by simp
qed

lemma soupStep_frame:
  assumes "soupStep q us = Some (q', results, us')"
  shows "\<exists>q1 us1. runPairs (pairsPerStep q) (q\<lparr>currentPairs := []\<rparr>) [] us =
                     Some (q1, results, us1) \<and>
           length (soup q') = length (soup q1) \<and> currentPairs q' = currentPairs q1 \<and>
           (\<forall>k<length (soup q1). soup q' ! k \<noteq> soup q1 ! k \<longrightarrow>
              selected (currentPairs q') (regionSize q) (length (soup q1)) k)"
proof -
  from assms obtain q1 us1 q2 where
    run: "runPairs (pairsPerStep q) (q\<lparr>currentPairs := []\<rparr>) [] us = Some (q1, results, us1)"
    and mut: "mutateSelected q1 us1 = Some (q2, us')"
    and q': "q' = q2\<lparr>pairCount := pairCount q2 + pairsPerStep q2\<rparr>"
    by (auto simp: soupStep_def split: option.splits)
  from runPairs_fields [OF run] have R: "regionSize q1 = regionSize q"
    by simp
  from mutateSelected_frame [OF mut]
  have q2: "q2 = q1\<lparr>soup := soup q2\<rparr>" and len: "length (soup q2) = length (soup q1)"
    and frame: "\<forall>k<length (soup q1). soup q2 ! k \<noteq> soup q1 ! k \<longrightarrow>
            selected (currentPairs q1) (regionSize q1) (length (soup q1)) k"
    by simp_all
  have "currentPairs q2 = currentPairs q1"
    by (subst q2) simp
  with run len frame R show ?thesis
    by (auto simp: q')
qed

subsection \<open>The mutation of the specification\<close>

text \<open>
  The two nested loops of \<open>mutateSelected\<close>, which draw as they go, do what the
  specification says: they read the decisions for the bytes of the selected regions
  from the draws and replace the bytes in the order of the regions.
\<close>

lemma spec_decisions_length:
  "spec_decisions rate n ds = Some (os, rest) \<Longrightarrow> length os = n"
proof (induction rate n ds arbitrary: os rest rule: spec_decisions.induct)
  case (1 rate ds)
  then show ?case by simp
next
  case (2 rate n)
  then show ?case by simp
next
  case (3 rate n d ds)
  then show ?case
    by (auto split: if_splits list.splits option.splits)
qed

lemma spec_replace_Cons:
  "spec_replace ((k, None) # kos) s = spec_replace kos s"
  "spec_replace ((k, Some v) # kos) s = spec_replace kos (wr s k v)"
  by (simp_all add: spec_replace_def)

lemma length_spec_replace [simp]: "length (spec_replace kos s) = length s"
proof (induction kos arbitrary: s)
  case Nil
  show ?case by (simp add: spec_replace_def)
next
  case (Cons ko kos)
  obtain k o' where ko: "ko = (k, o')" by (cases ko)
  show ?case
    by (cases o') (simp_all add: ko spec_replace_Cons Cons.IH)
qed

lemma spec_mutate_Nil: "spec_mutate rate [] s ds = Some (s, ds)"
  by (simp add: spec_mutate_def spec_replace_def)

lemma spec_mutate_Cons:
  "spec_mutate rate (k # ks) s ds =
     (case ds of
        [] \<Rightarrow> None
      | d # ds1 \<Rightarrow>
          if value_of d < rate
          then (case ds1 of
                  [] \<Rightarrow> None
                | v # ds2 \<Rightarrow> spec_mutate rate ks (wr s k (of_int \<lfloor>random_times v 256\<rfloor>)) ds2)
          else spec_mutate rate ks s ds1)"
  by (auto simp: spec_mutate_def spec_replace_Cons split: list.splits option.splits)

lemma spec_mutate_length:
  "spec_mutate rate ks s ds = Some (s', ds') \<Longrightarrow> length s' = length s"
  by (auto simp: spec_mutate_def split: option.splits)

lemma spec_mutate_append:
  "spec_mutate rate (ks1 @ ks2) s ds =
     (case spec_mutate rate ks1 s ds of
        None \<Rightarrow> None
      | Some (s1, ds1) \<Rightarrow> spec_mutate rate ks2 s1 ds1)"
proof (induction ks1 arbitrary: s ds)
  case Nil
  show ?case by (simp add: spec_mutate_Nil)
next
  case (Cons k ks1)
  show ?case
    by (simp add: spec_mutate_Cons Cons.IH split: list.splits)
qed

lemma mutateSlice_spec:
  "mutateSlice rate start is s ds =
     spec_mutate rate (map (\<lambda>i. js_rem (start + int i) (int (length s))) is) s ds"
proof (induction rate start "is" s ds rule: mutateSlice.induct)
  case (1 rate start s rs)
  show ?case by (simp add: spec_mutate_Nil)
next
  case (2 rate start i "is" s)
  show ?case by (simp add: spec_mutate_Cons)
next
  case (3 rate start i "is" s r rs)
  show ?case
  proof (cases "value_of r < rate")
    case False
    with "3.IH"(2) show ?thesis
      by (simp add: spec_mutate_Cons)
  next
    case True
    show ?thesis
    proof (cases rs)
      case Nil
      with True show ?thesis by (simp add: spec_mutate_Cons)
    next
      case (Cons v rs')
      with True "3.IH"(1) [OF True Cons] show ?thesis
        by (simp add: spec_mutate_Cons)
    qed
  qed
qed

lemma spec_targets_Cons:
  "spec_targets ((a, b) # ps) R len =
     map (\<lambda>i. js_rem (a + int i) (int len)) [0..<R] @
     map (\<lambda>i. js_rem (b + int i) (int len)) [0..<R] @ spec_targets ps R len"
  by (simp add: spec_targets_def)

lemma mutatePairs_spec:
  "mutatePairs rate R ps s ds = spec_mutate rate (spec_targets ps R (length s)) s ds"
proof (induction ps arbitrary: s ds)
  case Nil
  show ?case by (simp add: spec_targets_def spec_mutate_Nil)
next
  case (Cons pair ps)
  obtain a b where pair: "pair = (a, b)" by (cases pair)
  show ?case
  proof (cases "spec_mutate rate (map (\<lambda>i. js_rem (a + int i) (int (length s))) [0..<R]) s ds")
    case None
    then show ?thesis
      by (simp add: pair spec_targets_Cons spec_mutate_append mutateSlice_spec)
  next
    case (Some r1)
    obtain s1 ds1 where r1: "r1 = (s1, ds1)" by (cases r1)
    from Some r1 have l1: "length s1 = length s"
      by (auto dest: spec_mutate_length)
    show ?thesis
    proof (cases "spec_mutate rate (map (\<lambda>i. js_rem (b + int i) (int (length s))) [0..<R]) s1 ds1")
      case None
      with Some r1 l1 show ?thesis
        by (simp add: pair spec_targets_Cons spec_mutate_append mutateSlice_spec)
    next
      case Some2: (Some r2)
      obtain s2 ds2 where r2: "r2 = (s2, ds2)" by (cases r2)
      from Some2 r2 l1 have l2: "length s2 = length s"
        by (auto dest: spec_mutate_length)
      from Some r1 l1 Some2 r2 l2 Cons.IH [of s2 ds2] show ?thesis
        by (simp add: pair spec_targets_Cons spec_mutate_append mutateSlice_spec)
    qed
  qed
qed

lemma mutateSelected_spec:
  "mutateSelected p ds =
     (if mutationRate p \<le> 0 then Some (p, ds)
      else (case spec_mutate (mutationRate p)
                   (spec_targets (currentPairs p) (regionSize p) (length (soup p))) (soup p) ds of
              None \<Rightarrow> None
            | Some (s, ds') \<Rightarrow> Some (p\<lparr>soup := s\<rparr>, ds')))"
  by (simp add: mutateSelected_def mutatePairs_spec)

lemma spec_decisions_numeral:
  "spec_decisions rate (numeral k) [] = None"
  "spec_decisions rate (numeral k) (d # ds) =
     (if value_of d < rate
      then (case ds of
              [] \<Rightarrow> None
            | v # ds' \<Rightarrow>
                (case spec_decisions rate (pred_numeral k) ds' of
                   None \<Rightarrow> None
                 | Some (os, rest) \<Rightarrow> Some (Some (of_int \<lfloor>random_times v 256\<rfloor>) # os, rest)))
      else (case spec_decisions rate (pred_numeral k) ds of
              None \<Rightarrow> None
            | Some (os, rest) \<Rightarrow> Some (None # os, rest)))"
  by (simp_all add: numeral_eq_Suc)


subsection \<open>The pairs of a step of \<open>Population\<close>\<close>

lemma selectRandomSlice_cong:
  assumes "length (soup p') = length (soup p)" and "regionSize p' = regionSize p"
  shows "selectRandomSlice p' rs = selectRandomSlice p rs"
  using assms by (simp add: selectRandomSlice_def cong: list.case_cong)

lemma select_b_cong:
  assumes "length (soup p') = length (soup p)" and "regionSize p' = regionSize p"
  shows "select_b p' a rs = select_b p a rs"
proof (induction rs)
  case Nil
  show ?case by simp
next
  case (Cons r rs)
  then show ?case
    by (simp add: selectRandomSlice_cong [OF assms] split: option.splits)
qed

lemma selectRandomPair_cong:
  assumes "length (soup p') = length (soup p)" and "regionSize p' = regionSize p"
  shows "selectRandomPair p' rs = selectRandomPair p rs"
  by (simp add: selectRandomPair_def selectRandomSlice_cong [OF assms] select_b_cong [OF assms]
      cong: option.case_cong)

lemma selectPairs_cong:
  assumes "length (soup p') = length (soup p)" and "regionSize p' = regionSize p"
  shows "selectPairs n p' rs = selectPairs n p rs"
proof (induction n arbitrary: rs)
  case 0
  show ?case by simp
next
  case (Suc n)
  then show ?case
    by (simp add: selectRandomPair_cong [OF assms] cong: option.case_cong)
qed

lemma runPairs_selectPairs:
  assumes "runPairs n p results rs = Some (p1, results1, rs1)"
  shows "\<exists>ps. selectPairs n p rs = Some (ps, rs1) \<and> p1 = runAll ps p \<and>
           currentPairs p1 = currentPairs p @ ps"
  using assms
proof (induction n arbitrary: p results rs)
  case 0
  then show ?case by (simp add: runAll_def)
next
  case (Suc n)
  from Suc.prems obtain pair rs' where sel: "selectRandomPair p rs = Some (pair, rs')"
    and rec: "runPairs n (fst (runPair (p\<lparr>currentPairs := currentPairs p @ [pair]\<rparr>) pair))
            (results @ [snd (runPair (p\<lparr>currentPairs := currentPairs p @ [pair]\<rparr>) pair)]) rs' =
          Some (p1, results1, rs1)"
    by (auto simp: case_prod_unfold Let_def split: option.splits)
  let ?q = "p\<lparr>currentPairs := currentPairs p @ [pair]\<rparr>"
  let ?p' = "fst (runPair ?q pair)"
  have fields: "length (soup ?p') = length (soup p)" "regionSize ?p' = regionSize p"
    "currentPairs ?p' = currentPairs p @ [pair]"
    using runPair_fields(2) [of ?q pair]
    by (simp, (subst runPair_fields(1), simp)+)
  from Suc.IH [OF rec] obtain ps where ps: "selectPairs n ?p' rs' = Some (ps, rs1)"
    and p1: "p1 = runAll ps ?p'" and cp: "currentPairs p1 = currentPairs ?p' @ ps"
    by blast
  from ps have "selectPairs n p rs' = Some (ps, rs1)"
    by (simp add: selectPairs_cong [OF fields(1,2)])
  with sel have "selectPairs (Suc n) p rs = Some (pair # ps, rs1)"
    by simp
  moreover have "p1 = runAll (pair # ps) p"
    by (simp add: p1 runAll_def)
  moreover have "currentPairs p1 = currentPairs p @ pair # ps"
    by (simp add: cp fields(3))
  ultimately show ?case
    by blast
qed

lemma runPairs_rate:
  assumes "runPairs n p results rs = Some (p1, results1, rs1)"
  shows "mutationRate p1 = mutationRate p"
  using assms
proof (induction n arbitrary: p results rs)
  case 0
  then show ?case by simp
next
  case (Suc n)
  from Suc.prems obtain pair rs' where
    rec: "runPairs n (fst (runPair (p\<lparr>currentPairs := currentPairs p @ [pair]\<rparr>) pair))
            (results @ [snd (runPair (p\<lparr>currentPairs := currentPairs p @ [pair]\<rparr>) pair)]) rs' =
          Some (p1, results1, rs1)"
    by (auto simp: case_prod_unfold Let_def split: option.splits)
  let ?q = "p\<lparr>currentPairs := currentPairs p @ [pair]\<rparr>"
  have "mutationRate (fst (runPair ?q pair)) = mutationRate ?q"
    by (subst runPair_fields(1)) simp
  with Suc.IH [OF rec] show ?case
    by simp
qed

lemma soupStep_wasm_mutation:
  assumes "pendingExecutions p < maxPendingExecutions p"
    and "soupStep_wasm p rs = Some (p', rs')"
  shows "\<exists>p1 rs1.
           generatePairs (pairsPerStep p) (p\<lparr>currentPairs := []\<rparr>) rs = Some (p1, rs1) \<and>
           soup p1 = soup p \<and> currentPairs p' = currentPairs p1 \<and>
           (if 0 < mutationRate p
            then spec_mutate (mutationRate p)
                   (spec_targets (currentPairs p') (regionSize p) (length (soup p)))
                   (soup p) rs1 = Some (soup p', rs')
            else soup p' = soup p \<and> rs' = rs1)"
proof -
  from soupStep_wasm_parts [OF assms] obtain p1 rs1
    where gen: "generatePairs (pairsPerStep p) (p\<lparr>currentPairs := []\<rparr>) rs = Some (p1, rs1)"
      and mut: "mutateSelected (dispatch p1) rs1 = Some (p', rs')"
    by blast
  from generatePairs_fields [OF gen] have p1: "p1 = p\<lparr>currentPairs := currentPairs p1\<rparr>"
    by simp
  have f: "soup p1 = soup p" "regionSize p1 = regionSize p" "mutationRate p1 = mutationRate p"
    by (subst p1, simp)+
  from mutateSelected_frame [OF mut] have p': "p' = (dispatch p1)\<lparr>soup := soup p'\<rparr>"
    by simp
  have cp: "currentPairs p' = currentPairs p1"
    by (subst p') (simp add: dispatch_fields)
  have "if 0 < mutationRate p
        then spec_mutate (mutationRate p)
               (spec_targets (currentPairs p') (regionSize p) (length (soup p)))
               (soup p) rs1 = Some (soup p', rs')
        else soup p' = soup p \<and> rs' = rs1"
    using mut
    by (auto simp: mutateSelected_spec dispatch_fields f cp split: if_splits option.splits)
  with gen f(1) cp show ?thesis
    by blast
qed

lemma soupStep_mutation:
  assumes "soupStep q us = Some (q', results, us')"
  shows "\<exists>ps us1.
           selectPairs (pairsPerStep q) q us = Some (ps, us1) \<and> currentPairs q' = ps \<and>
           (if 0 < mutationRate q
            then spec_mutate (mutationRate q) (spec_targets ps (regionSize q) (length (soup q)))
                   (soup (runAll ps (q\<lparr>currentPairs := []\<rparr>))) us1 = Some (soup q', us')
            else soup q' = soup (runAll ps (q\<lparr>currentPairs := []\<rparr>)) \<and> us' = us1) \<and>
           (\<forall>k<length (soup q).
              soup q' ! k \<noteq> soup (runAll ps (q\<lparr>currentPairs := []\<rparr>)) ! k \<longrightarrow>
              selected ps (regionSize q) (length (soup q)) k)"
proof -
  let ?q0 = "q\<lparr>currentPairs := []\<rparr>"
  from assms obtain q1 us1 q2 where
    run: "runPairs (pairsPerStep q) ?q0 [] us = Some (q1, results, us1)"
    and mut: "mutateSelected q1 us1 = Some (q2, us')"
    and q': "q' = q2\<lparr>pairCount := pairCount q2 + pairsPerStep q2\<rparr>"
    by (auto simp: soupStep_def split: option.splits)
  from runPairs_selectPairs [OF run] obtain ps
    where sel0: "selectPairs (pairsPerStep q) ?q0 us = Some (ps, us1)"
      and q1: "q1 = runAll ps ?q0" and cp1: "currentPairs q1 = ps"
    by auto
  have sel: "selectPairs (pairsPerStep q) q us = Some (ps, us1)"
    using sel0 selectPairs_cong [of ?q0 q] by simp
  from runPairs_fields [OF run] have R: "regionSize q1 = regionSize q"
    and len: "length (soup q1) = length (soup q)"
    by simp_all
  from runPairs_rate [OF run] have rate: "mutationRate q1 = mutationRate q"
    by simp
  from mutateSelected_frame [OF mut]
  have q2: "q2 = q1\<lparr>soup := soup q2\<rparr>"
    and frame: "\<forall>k<length (soup q1). soup q2 ! k \<noteq> soup q1 ! k \<longrightarrow>
            selected (currentPairs q1) (regionSize q1) (length (soup q1)) k"
    by simp_all
  have cp2: "currentPairs q2 = ps"
    by (subst q2) (simp add: cp1)
  have s': "soup q' = soup q2" and cp': "currentPairs q' = ps"
    by (simp_all add: q' cp2)
  have "if 0 < mutationRate q
        then spec_mutate (mutationRate q) (spec_targets ps (regionSize q) (length (soup q)))
               (soup q1) us1 = Some (soup q', us')
        else soup q' = soup q1 \<and> us' = us1"
    using mut
    by (auto simp: mutateSelected_spec R len rate cp1 s' split: if_splits option.splits)
  moreover from frame have "\<forall>k<length (soup q). soup q' ! k \<noteq> soup q1 ! k \<longrightarrow>
              selected ps (regionSize q) (length (soup q)) k"
    by (simp add: R len cp1 s')
  ultimately show ?thesis
    using sel cp' unfolding q1 by blast
qed

subsection \<open>The examples of a step\<close>

lemma wasm_example_generate:
  "generatePairs (pairsPerStep wasm_example) (wasm_example\<lparr>currentPairs := []\<rparr>)
     step_draws =
   Some (wasm_example\<lparr>currentPairs := [(0, 6)]\<rparr>, [draw_quarter, draw_half, draw_three_quarters, draw_three_quarters, draw_three_quarters])"
  by (simp add: wasm_example_def selectRandomPair_wasm_def selectRandomSlice_wasm_def
      numPositions_def step_draws_def random_eval)

lemma wasm_example_dispatch:
  "dispatch (wasm_example\<lparr>currentPairs := [(0, 6)]\<rparr>) =
   wasm_example\<lparr>currentPairs := [(0, 6)], pairCount := 1, pendingExecutions := 1,
     workerPool := \<lparr>numWorkers = 1, ready = True,
       posted = [\<lparr>worker = 0, pairs = [(0, 6)], head1Offset_msg = 2, maxSteps_msg = 8192\<rparr>]\<rparr>\<rparr>"
  by (simp add: wasm_example_def dispatch_def executeBatch_def)

lemma wasm_example_mutate:
  "mutateSelected
     (wasm_example\<lparr>currentPairs := [(0, 6)], pairCount := 1, pendingExecutions := 1,
        workerPool := \<lparr>numWorkers = 1, ready = True,
          posted = [\<lparr>worker = 0, pairs = [(0, 6)], head1Offset_msg = 2,
                     maxSteps_msg = 8192\<rparr>]\<rparr>\<rparr>)
     [draw_quarter, draw_half, draw_three_quarters, draw_three_quarters, draw_three_quarters] =
   Some (wasm_example\<lparr>currentPairs := [(0, 6)], pairCount := 1, pendingExecutions := 1,
        workerPool := \<lparr>numWorkers = 1, ready = True,
          posted = [\<lparr>worker = 0, pairs = [(0, 6)], head1Offset_msg = 2,
                     maxSteps_msg = 8192\<rparr>]\<rparr>,
        soup := [128, 2, 3, 4, 5, 6, 7, 8]\<rparr>, [])"
  by (simp add: wasm_example_def mutateSelected_def upt_eval wr_def js_rem_def random_eval)

lemma legacy_example_select:
  "selectRandomPair (legacy_example\<lparr>currentPairs := []\<rparr>) legacy_draws =
     Some ((0, 2), [draw_quarter, draw_half, draw_three_quarters, draw_three_quarters, draw_three_quarters])"
  by (simp add: selectRandomPair_def selectRandomSlice_def legacy_example_def
      quiet_example_def legacy_draws_def random_eval)

lemma legacy_example_runPair:
  "runPair (legacy_example\<lparr>currentPairs := [(0, 2)]\<rparr>) (0, 2) =
     (legacy_example\<lparr>currentPairs := [(0, 2)]\<rparr>,
      \<lparr>steps = 4, reason = Some end_of_tape, writes = Some 0, jumps = Some 0\<rparr>)"
proof -
  let ?p = "legacy_example\<lparr>currentPairs := [(0, 2)]\<rparr>"
  have f: "regionSize ?p = 2" "soup ?p = [0x3E, 0x3C, 1, 1]"
    by (simp_all add: legacy_example_def quiet_example_def)
  have "getSlice ?p 0 = [0x3E, 0x3C]" and "getSlice ?p 2 = [1, 1]"
    by (simp_all add: f getSlice_map array_eval)
  then have "combineTapes ?p (getSlice ?p 0) (getSlice ?p 2) = [0x3E, 0x3C, 1, 1]"
    by (simp add: combineTapes_append f)
  then show ?thesis
    by (simp add: runPair_def quiet_example_run hasInstructions_def instructions_def)
qed

lemma legacy_example_runPairs:
  "runPairs (pairsPerStep legacy_example) (legacy_example\<lparr>currentPairs := []\<rparr>) []
     legacy_draws =
   Some (legacy_example\<lparr>currentPairs := [(0, 2)]\<rparr>,
         [\<lparr>steps = 4, reason = Some end_of_tape, writes = Some 0, jumps = Some 0\<rparr>],
         [draw_quarter, draw_half, draw_three_quarters, draw_three_quarters, draw_three_quarters])"
proof -
  have "pairsPerStep legacy_example = Suc 0"
    by (simp add: legacy_example_def quiet_example_def)
  then show ?thesis
    by (simp add: legacy_example_select legacy_example_runPair)
qed

lemma legacy_example_mutate:
  "mutateSelected (legacy_example\<lparr>currentPairs := [(0, 2)]\<rparr>)
     [draw_quarter, draw_half, draw_three_quarters, draw_three_quarters, draw_three_quarters] =
   Some (legacy_example\<lparr>currentPairs := [(0, 2)], soup := [128, 0x3C, 1, 1]\<rparr>, [])"
  by (simp add: legacy_example_def quiet_example_def mutateSelected_def upt_eval wr_def
      js_rem_def random_eval)

lemma legacy_example_step:
  "soupStep legacy_example legacy_draws =
   Some (legacy_example\<lparr>currentPairs := [(0, 2)], soup := [128, 0x3C, 1, 1], pairCount := 1\<rparr>,
         [\<lparr>steps = 4, reason = Some end_of_tape, writes = Some 0, jumps = Some 0\<rparr>], [])"
  by (simp add: soupStep_def legacy_example_runPairs legacy_example_mutate)
     (simp add: legacy_example_def quiet_example_def)

lemma wasm_example_step:
  "soupStep_wasm wasm_example step_draws =
   Some (wasm_example\<lparr>currentPairs := [(0, 6)], pairCount := 1, pendingExecutions := 1,
        workerPool := \<lparr>numWorkers = 1, ready = True,
          posted = [\<lparr>worker = 0, pairs = [(0, 6)], head1Offset_msg = 2,
                     maxSteps_msg = 8192\<rparr>]\<rparr>,
        soup := [128, 2, 3, 4, 5, 6, 7, 8]\<rparr>, [])"
proof -
  have "pendingExecutions wasm_example < maxPendingExecutions wasm_example"
    by (simp add: wasm_example_def)
  then have "soupStep_wasm wasm_example step_draws =
      mutateSelected (dispatch (wasm_example\<lparr>currentPairs := [(0, 6)]\<rparr>))
        [draw_quarter, draw_half, draw_three_quarters, draw_three_quarters, draw_three_quarters]"
    by (simp add: soupStep_wasm_def wasm_example_generate)
  then show ?thesis
    by (simp only: wasm_example_dispatch wasm_example_mutate)
qed

subsection \<open>Pair selection\<close>

lemma numPositions_div:
  "numPositions p = (int (length (soup p)) - int (regionSize p)) div alignment p + 1"
  by (simp add: numPositions_def Let_def floor_divide_of_int_eq)

text \<open>A start that \<open>PopulationWasm\<close> may select.\<close>

lemma aligned_start:
  assumes al: "0 < alignment p" and fit: "regionSize p \<le> length (soup p)"
    and pos: "0 \<le> pos" "pos \<le> numPositions p - 1"
  shows "0 \<le> pos * alignment p" and "alignment p dvd pos * alignment p"
    and "pos * alignment p + int (regionSize p) \<le> int (length (soup p))"
proof -
  let ?m = "int (length (soup p)) - int (regionSize p)"
  show "0 \<le> pos * alignment p"
    using al pos(1) by simp
  show "alignment p dvd pos * alignment p"
    by simp
  from pos(2) have "pos \<le> ?m div alignment p"
    by (simp add: numPositions_div)
  then have "pos * alignment p \<le> (?m div alignment p) * alignment p"
    using al by (simp add: mult_right_mono)
  also have "\<dots> \<le> ?m"
  proof -
    have "(?m div alignment p) * alignment p + ?m mod alignment p = ?m"
      by simp
    moreover have "0 \<le> ?m mod alignment p"
      using al by simp
    ultimately show ?thesis
      by linarith
  qed
  finally show "pos * alignment p + int (regionSize p) \<le> int (length (soup p))"
    by simp
qed

lemma numPositions_pos:
  assumes "0 < alignment p" and "regionSize p \<le> length (soup p)"
  shows "1 \<le> numPositions p"
  using assms by (simp add: numPositions_div pos_imp_zdiv_nonneg_iff)

lemma numPositions_double:
  assumes al: "0 < alignment p" and fit: "regionSize p \<le> length (soup p)"
    and big: "length (soup p) < 2 ^ 53"
  shows "numPositions p \<le> 2 ^ 53"
proof -
  let ?m = "int (length (soup p)) - int (regionSize p)"
  from fit have "0 \<le> ?m" by simp
  then have "?m div alignment p \<le> ?m"
    by (cases "?m = 0") (simp_all add: int_div_le_self)
  also have "\<dots> \<le> int (length (soup p))" by simp
  also from big have "\<dots> < 2 ^ 53" by simp
  finally show ?thesis
    by (simp add: numPositions_div)
qed


lemma select_any_sound:
  assumes al: "0 < alignment p" and fit: "regionSize p \<le> length (soup p)"
    and big: "length (soup p) < 2 ^ 53"
    and "unit_interval rs" and "select_any p a rs = Some (b, rs')"
  shows "\<bar>b - a\<bar> \<ge> int (regionSize p) \<and> 0 \<le> b \<and> alignment p dvd b \<and>
         b + int (regionSize p) \<le> int (length (soup p)) \<and> unit_interval rs'"
  using assms(4,5)
proof (induction rs)
  case Nil
  then show ?case by simp
next
  case (Cons r rs)
  let ?pos = "\<lfloor>random_times r (numPositions p)\<rfloor>"
  from Cons.prems(1) have r: "double01 r" and rest: "unit_interval rs"
    by (simp_all add: unit_interval_def)
  have pos: "0 \<le> ?pos" "?pos \<le> numPositions p - 1"
    using random_index_range [OF r numPositions_pos [OF al fit] numPositions_double [OF al fit big]]
    by simp_all
  show ?case
  proof (cases "\<bar>?pos * alignment p - a\<bar> < int (regionSize p)")
    case True
    with Cons.prems(2) have "select_any p a rs = Some (b, rs')"
      by (simp add: Let_def)
    with Cons.IH rest show ?thesis
      by simp
  next
    case False
    with Cons.prems(2) have "b = ?pos * alignment p" and "rs' = rs"
      by (simp_all add: Let_def)
    with False rest aligned_start [OF al fit pos] show ?thesis
      by simp
  qed
qed

lemma select_local_sound:
  assumes al: "0 < alignment p" and fit: "regionSize p \<le> length (soup p)"
    and big: "length (soup p) < 2 ^ 53"
    and bounds: "0 \<le> minPos" "minPos \<le> maxPos" "maxPos \<le> numPositions p - 1"
    and "unit_interval rs" and "select_local p a minPos maxPos rs = Some (b, rs')"
  shows "\<bar>b - a\<bar> \<ge> int (regionSize p) \<and> 0 \<le> b \<and> alignment p dvd b \<and>
         b + int (regionSize p) \<le> int (length (soup p)) \<and> unit_interval rs'"
  using assms(7,8)
proof (induction rs)
  case Nil
  then show ?case by simp
next
  case (Cons r rs)
  let ?pos = "minPos + \<lfloor>random_times r (maxPos - minPos + 1)\<rfloor>"
  from Cons.prems(1) have r: "double01 r" and rest: "unit_interval rs"
    by (simp_all add: unit_interval_def)
  have n1: "1 \<le> maxPos - minPos + 1"
    using bounds(2) by simp
  have "maxPos - minPos + 1 \<le> numPositions p"
    using bounds by simp
  also note numPositions_double [OF al fit big]
  finally have n53: "maxPos - minPos + 1 \<le> 2 ^ 53" .
  from random_index_range [OF r n1 n53] bounds
  have pos: "0 \<le> ?pos" "?pos \<le> numPositions p - 1"
    by simp_all
  show ?case
  proof (cases "\<bar>?pos * alignment p - a\<bar> < int (regionSize p)")
    case True
    with Cons.prems(2) have "select_local p a minPos maxPos rs = Some (b, rs')"
      by (simp add: Let_def)
    with Cons.IH rest show ?thesis
      by simp
  next
    case False
    with Cons.prems(2) have "b = ?pos * alignment p" and "rs' = rs"
      by (simp_all add: Let_def)
    with False rest aligned_start [OF al fit pos] show ?thesis
      by simp
  qed
qed

lemma selectRandomSlice_wasm_sound:
  assumes al: "0 < alignment p" and fit: "regionSize p \<le> length (soup p)"
    and big: "length (soup p) < 2 ^ 53"
    and "unit_interval rs" and "selectRandomSlice_wasm p rs = Some (a, rs')"
  shows "\<exists>pos. a = pos * alignment p \<and> 0 \<le> pos \<and> pos \<le> numPositions p - 1" and "unit_interval rs'"
proof -
  from assms(5) obtain r where rs: "rs = r # rs'"
    and a: "a = \<lfloor>random_times r (numPositions p)\<rfloor> * alignment p"
    by (auto simp: selectRandomSlice_wasm_def split: list.splits)
  from assms(4) rs have r: "double01 r" and "unit_interval rs'"
    by (simp_all add: unit_interval_def)
  then show "unit_interval rs'" by simp
  from random_index_range [OF r numPositions_pos [OF al fit] numPositions_double [OF al fit big]] a
  show "\<exists>pos. a = pos * alignment p \<and> 0 \<le> pos \<and> pos \<le> numPositions p - 1"
    by blast
qed

lemma selectRandomPair_wasm_sound:
  assumes al: "0 < alignment p" and fit: "regionSize p \<le> length (soup p)"
    and big: "length (soup p) < 2 ^ 53"
    and ui: "unit_interval rs" and sel: "selectRandomPair_wasm p rs = Some ((a, b), rs')"
  shows "\<bar>a - b\<bar> \<ge> int (regionSize p) \<and>
         alignment p dvd a \<and> alignment p dvd b \<and> 0 \<le> a \<and> 0 \<le> b \<and>
         a + int (regionSize p) \<le> int (length (soup p)) \<and>
         b + int (regionSize p) \<le> int (length (soup p))"
proof -
  from sel obtain rs1 where slice: "selectRandomSlice_wasm p rs = Some (a, rs1)"
    by (auto simp: selectRandomPair_wasm_def split: option.splits)
  from selectRandomSlice_wasm_sound [OF al fit big ui slice]
  obtain pos where a: "a = pos * alignment p" and pos: "0 \<le> pos" "pos \<le> numPositions p - 1"
    and ui1: "unit_interval rs1"
    by blast
  note astart = aligned_start [OF al fit pos, folded a]
  have b: "\<bar>b - a\<bar> \<ge> int (regionSize p) \<and> 0 \<le> b \<and> alignment p dvd b \<and>
         b + int (regionSize p) \<le> int (length (soup p)) \<and> unit_interval rs'"
  proof (cases "localityLimit p \<noteq> None \<and> the (localityLimit p) > 0")
    case False
    with sel slice have "select_any p a rs1 = Some (b, rs')"
      by (auto simp: selectRandomPair_wasm_def split: option.splits)
    then show ?thesis
      by (rule select_any_sound [OF al fit big ui1])
  next
    case True
    define posA where "posA = \<lfloor>real_of_int a / real_of_int (alignment p)\<rfloor>"
    define loc where "loc = \<lfloor>real_of_int (the (localityLimit p)) * real (numTapes p)
                  * real (regionSize p) / real_of_int (alignment p) / 100\<rfloor>"
    from True sel slice
    have loop: "select_local p a (max 0 (posA - loc)) (min (numPositions p - 1) (posA + loc)) rs1 =
        Some (b, rs')"
      by (auto simp: selectRandomPair_wasm_def Let_def posA_def loc_def split: option.splits)
    have posA: "posA = pos"
      using al by (simp add: posA_def a floor_divide_of_int_eq)
    have "0 \<le> real_of_int (the (localityLimit p)) * real (numTapes p)
                  * real (regionSize p) / real_of_int (alignment p) / 100"
      using True al by simp
    then have loc: "0 \<le> loc"
      unfolding loc_def by (simp only: zero_le_floor of_int_0)
    have "0 \<le> max 0 (posA - loc)"
      and "max 0 (posA - loc) \<le> min (numPositions p - 1) (posA + loc)"
      and "min (numPositions p - 1) (posA + loc) \<le> numPositions p - 1"
      using pos loc unfolding posA by simp_all
    then show ?thesis
      using ui1 loop by (rule select_local_sound [OF al fit big])
  qed
  with astart show ?thesis
    by (simp add: abs_minus_commute)
qed

lemma selectRandomSlice_sound:
  assumes R: "0 < regionSize p" and fit: "regionSize p \<le> length (soup p)"
    and big: "length (soup p) < 2 ^ 53"
    and "unit_interval rs" and "selectRandomSlice p rs = Some (a, rs')"
  shows "0 \<le> a \<and> int (regionSize p) dvd a \<and> a + int (regionSize p) \<le> int (length (soup p)) \<and>
         unit_interval rs'"
proof -
  let ?n = "\<lfloor>real (length (soup p)) / real (regionSize p)\<rfloor>"
  have n: "?n = int (length (soup p) div regionSize p)"
    by (simp add: floor_divide_of_nat_eq)
  from R fit have "1 \<le> length (soup p) div regionSize p"
    by (simp add: Suc_le_eq div_greater_zero_iff)
  then have n1: "1 \<le> ?n"
    unfolding n by simp
  have "length (soup p) div regionSize p \<le> length (soup p)"
    by (rule div_le_dividend)
  from this big have "length (soup p) div regionSize p < 2 ^ 53"
    by (rule le_less_trans)
  then have "int (length (soup p) div regionSize p) < int (2 ^ 53)"
    by (simp only: of_nat_less_iff)
  then have "int (length (soup p) div regionSize p) \<le> 2 ^ 53"
    by simp
  then have n53: "?n \<le> 2 ^ 53"
    unfolding n .
  from assms(5) obtain r where rs: "rs = r # rs'"
    and a: "a = \<lfloor>random_times r ?n\<rfloor> * int (regionSize p)"
    by (auto simp: selectRandomSlice_def Let_def split: list.splits)
  from assms(4) rs have r: "double01 r" and ui: "unit_interval rs'"
    by (simp_all add: unit_interval_def)
  let ?slot = "\<lfloor>random_times r ?n\<rfloor>"
  from random_index_range [OF r n1 n53] have slot: "0 \<le> ?slot" "?slot \<le> ?n - 1"
    by simp_all
  then have "(?slot + 1) * int (regionSize p) \<le> ?n * int (regionSize p)"
    by (intro mult_right_mono) simp_all
  also have "\<dots> \<le> int (length (soup p))"
    unfolding n by (metis div_times_less_eq_dividend of_nat_le_iff of_nat_mult)
  finally have "a + int (regionSize p) \<le> int (length (soup p))"
    by (simp add: a algebra_simps)
  with slot ui show ?thesis
    by (simp add: a)
qed

lemma multiples_apart:
  fixes R :: int
  assumes "0 < R" and "R dvd a" and "R dvd b" and "a \<noteq> b"
  shows "R \<le> \<bar>a - b\<bar>"
proof -
  from assms(2,3) have "R dvd \<bar>a - b\<bar>"
    by simp
  moreover from assms(4) have "0 < \<bar>a - b\<bar>"
    by simp
  ultimately show ?thesis
    by (rule zdvd_imp_le)
qed

lemma select_b_sound:
  assumes R: "0 < regionSize p" and fit: "regionSize p \<le> length (soup p)"
    and big: "length (soup p) < 2 ^ 53"
    and "unit_interval rs" and "select_b p a rs = Some (b, rs')"
  shows "a \<noteq> b \<and> 0 \<le> b \<and> int (regionSize p) dvd b \<and>
         b + int (regionSize p) \<le> int (length (soup p))"
  using assms(4,5)
proof (induction rs)
  case Nil
  then show ?case by simp
next
  case (Cons r rs)
  from Cons.prems(2) obtain b' rs1 where slice: "selectRandomSlice p (r # rs) = Some (b', rs1)"
    by (auto split: option.splits)
  from Cons.prems(1) have rest: "unit_interval rs"
    by (simp add: unit_interval_def)
  show ?case
  proof (cases "a = b'")
    case True
    with Cons.prems(2) slice have "select_b p a rs = Some (b, rs')"
      by simp
    with Cons.IH rest show ?thesis
      by simp
  next
    case False
    with Cons.prems(2) slice have "b = b'"
      by simp
    with False selectRandomSlice_sound [OF R fit big Cons.prems(1) slice] show ?thesis
      by simp
  qed
qed

lemma selectRandomPair_sound:
  assumes R: "0 < regionSize p" and fit: "regionSize p \<le> length (soup p)"
    and big: "length (soup p) < 2 ^ 53"
    and ui: "unit_interval rs" and sel: "selectRandomPair p rs = Some ((a, b), rs')"
  shows "separate (soup p) (regionSize p) (a, b) \<and>
         int (regionSize p) dvd a \<and> int (regionSize p) dvd b"
proof -
  from sel obtain rs1 where slice: "selectRandomSlice p rs = Some (a, rs1)"
    and loop: "select_b p a rs1 = Some (b, rs')"
    by (auto simp: selectRandomPair_def split: option.splits)
  from selectRandomSlice_sound [OF R fit big ui slice]
  have a: "0 \<le> a" "int (regionSize p) dvd a" "a + int (regionSize p) \<le> int (length (soup p))"
    and ui1: "unit_interval rs1"
    by simp_all
  from select_b_sound [OF R fit big ui1 loop]
  have b: "a \<noteq> b" "0 \<le> b" "int (regionSize p) dvd b"
    "b + int (regionSize p) \<le> int (length (soup p))"
    by simp_all
  from R a(2) b(3,1) have "int (regionSize p) \<le> \<bar>a - b\<bar>"
    by (intro multiples_apart) simp_all
  with a b show ?thesis
    by (simp add: separate_def)
qed

lemma wasm_example_fields:
  "regionSize wasm_example = 2" "soup wasm_example = [1, 2, 3, 4, 5, 6, 7, 8]"
  "alignment wasm_example = 2" "localityLimit wasm_example = None"
  by (simp_all add: wasm_example_def)

lemma local_example_fields:
  "regionSize local_example = 2" "length (soup local_example) = 200"
  "alignment local_example = 2" "localityLimit local_example = Some 1"
  "numTapes local_example = 100"
  by (simp_all add: local_example_def wasm_example_def)

lemma seven_example_fields:
  "regionSize seven_example = 2" "length (soup seven_example) = 14"
  "alignment seven_example = 2" "localityLimit seven_example = None"
  by (simp_all add: seven_example_def wasm_example_def)

lemma wasm_example_pair:
  "selectRandomPair_wasm wasm_example [draw_zero, draw_zero, draw_three_quarters] = Some ((0, 6), [])"
  by (simp add: selectRandomPair_wasm_def selectRandomSlice_wasm_def numPositions_def
      wasm_example_fields random_eval)

lemma local_example_pair:
  "selectRandomPair_wasm local_example [draw_half, draw_half, draw_zero] = Some ((100, 98), [])"
  by (simp add: selectRandomPair_wasm_def selectRandomSlice_wasm_def numPositions_def
      local_example_fields random_eval)

lemma seven_example_pair:
  "selectRandomPair_wasm seven_example [four_sevenths, draw_zero] = Some ((8, 0), [])"
  by (simp add: selectRandomPair_wasm_def selectRandomSlice_wasm_def numPositions_def
      seven_example_fields four_sevenths_def random_eval)

lemma quiet_example_pair:
  "selectRandomPair quiet_example [draw_zero, draw_zero, draw_half] = Some ((0, 2), [])"
  by (simp add: selectRandomPair_def selectRandomSlice_def quiet_example_fields random_eval)

section \<open>Step after halt\<close>

text \<open>
  C10. Calling \<open>step()\<close> on an interpreter whose \<open>halted\<close> flag is set changes nothing:
  the tape, \<open>ip\<close>, both heads, \<open>stepCount\<close> and every other field of the interpreter
  are what they were.
\<close>

theorem step_halted_identity: "halted s \<Longrightarrow> step s = s"
  by (simp add: step_def)

theorem step_halted_identity_witness:
  "halted (run (new_BFFInterpreter [0x2B, 0x00])) \<and>
   step (run (new_BFFInterpreter [0x2B, 0x00])) = run (new_BFFInterpreter [0x2B, 0x00])"
proof -
  have h: "halted (run (new_BFFInterpreter [0x2B, 0x00]))"
    by (simp add: interpreter_eval tape_eval array_eval)
  show ?thesis
    using h step_halted_identity [OF h] by simp
qed

section \<open>Head positions\<close>

lemma wrapHead_range:
  "tape s \<noteq> [] \<Longrightarrow> 0 \<le> wrapHead s i \<and> wrapHead s i < size_tape (tape s)"
  using js_rem_wrap_range [of "size_tape (tape s)" i]
  by (simp add: wrapHead_def size_tape_def)

lemma heads_exec:
  assumes "heads_in_range s" and "tape s \<noteq> []"
  shows "heads_in_range (exec c s)"
  using assms wrapHead_range [OF assms(2)]
  by (simp add: heads_in_range_def exec_def halt_unmatched_def size_tape_def Let_def)

lemma heads_step:
  assumes "heads_in_range s" and "tape s \<noteq> []"
  shows "heads_in_range (step s)"
proof -
  let ?s = "s\<lparr>stepCount := stepCount s + 1\<rparr>"
  have "heads_in_range ?s" and "tape ?s \<noteq> []"
    using assms by (simp_all add: heads_in_range_def)
  then have "heads_in_range (exec c ?s)" for c
    by (rule heads_exec)
  moreover have "heads_in_range (advance ?s)"
    using assms by (simp add: heads_in_range_def size_tape_def)
  ultimately show ?thesis
    using assms by (simp add: step_def heads_in_range_def split: option.splits)
qed

lemma heads_steps:
  assumes "t \<noteq> []"
  shows "heads_in_range ((step ^^ n) (new_BFFInterpreter t))"
proof (induction n)
  case 0
  from assms show ?case
    by (simp add: heads_in_range_def size_tape_def)
next
  case (Suc n)
  have "length (tape ((step ^^ n) (new_BFFInterpreter t))) = length t"
    by simp
  with assms have "tape ((step ^^ n) (new_BFFInterpreter t)) \<noteq> []"
    by (metis length_0_conv)
  with Suc show ?case
    by (simp add: heads_step)
qed

text \<open>
  C7. At every point of an execution, after any number of calls of \<open>step()\<close> from the
  initial state, both heads are indices of the tape: \<open>0 \<le> head0 < 2R\<close> and
  \<open>0 \<le> head1 < 2R\<close>, where \<open>2R\<close> is the length of the tape (head movement wraps at
  both ends). The tape has at least one cell.
\<close>

theorem heads_always_in_range:
  assumes "t \<noteq> []"
  shows "0 \<le> head0 ((step ^^ n) (new_BFFInterpreter t)) \<and>
         head0 ((step ^^ n) (new_BFFInterpreter t)) < int (length t) \<and>
         0 \<le> head1 ((step ^^ n) (new_BFFInterpreter t)) \<and>
         head1 ((step ^^ n) (new_BFFInterpreter t)) < int (length t)"
  using heads_steps [OF assms, of n]
  by (simp add: heads_in_range_def size_tape_def)

theorem heads_always_in_range_witness:
  "[0x3C, 0x7D :: byte] \<noteq> [] \<and>
   head0 ((step ^^ 2) (new_BFFInterpreter [0x3C, 0x7D])) = 1 \<and>
   head1 ((step ^^ 2) (new_BFFInterpreter [0x3C, 0x7D])) = 1 \<and>
   0 \<le> head0 ((step ^^ 2) (new_BFFInterpreter [0x3C, 0x7D])) \<and>
   head0 ((step ^^ 2) (new_BFFInterpreter [0x3C, 0x7D])) < int (length [0x3C, 0x7D :: byte]) \<and>
   0 \<le> head1 ((step ^^ 2) (new_BFFInterpreter [0x3C, 0x7D])) \<and>
   head1 ((step ^^ 2) (new_BFFInterpreter [0x3C, 0x7D])) < int (length [0x3C, 0x7D :: byte])"
proof -
  have ne: "[0x3C, 0x7D :: byte] \<noteq> []"
    by simp
  have "head0 ((step ^^ 2) (new_BFFInterpreter [0x3C, 0x7D])) = 1"
    and "head1 ((step ^^ 2) (new_BFFInterpreter [0x3C, 0x7D])) = 1"
    by (simp_all add: funpow2 interpreter_eval tape_eval array_eval)
  with ne heads_always_in_range [OF ne, of 2] show ?thesis
    by blast
qed

section \<open>Termination and the step cap\<close>

lemma advance_halt:
  "halted (advance s) \<Longrightarrow> \<not> halted s \<Longrightarrow> haltReason (advance s) = Some end_of_tape"
  by (simp add: advance_def Let_def split: if_splits)

lemma advance_unless_halted_halt:
  "\<not> halted s \<Longrightarrow>
   halted (advance_unless_halted s) \<longrightarrow>
   haltReason (advance_unless_halted s) = Some end_of_tape"
  by (simp add: advance_unless_halted_def advance_halt)

lemma exec_halt:
  assumes "\<not> halted s" and "halted (exec c s)"
  shows "haltReason (exec c s) \<in> {Some end_of_tape, Some unmatched_bracket}"
proof -
  have "halted (exec c s) \<longrightarrow>
        haltReason (exec c s) = Some end_of_tape \<or> haltReason (exec c s) = Some unmatched_bracket"
    using assms(1)
    by (simp add: exec_def Let_def halt_unmatched_def advance_unless_halted_halt)
  with assms(2) show ?thesis
    by simp
qed

lemma halt_ok_step:
  assumes "halt_ok s" and "\<not> halted s"
  shows "halt_ok (step s)"
proof (cases "stepCount s \<ge> MAX_STEPS")
  case True
  with assms show ?thesis
    by (simp add: step_def halt_ok_def)
next
  case False
  let ?s = "s\<lparr>stepCount := stepCount s + 1\<rparr>"
  have running: "\<not> halted ?s"
    using assms by simp
  show ?thesis
  proof (cases "byteToInstruction (get (tape s) (ip s))")
    case None
    with False assms have eq: "step s = advance ?s"
      by (simp add: step_def)
    from advance_halt [OF _ running] False show ?thesis
      by (auto simp: eq halt_ok_def)
  next
    case (Some c)
    with False assms have eq: "step s = exec c ?s"
      by (simp add: step_def)
    have "stepCount (exec c ?s) = stepCount s + 1"
      by (simp add: exec_def halt_unmatched_def Let_def)
    with exec_halt [OF running, of c] False show ?thesis
      by (auto simp: eq halt_ok_def)
  qed
qed

lemma halt_ok_run: "halt_ok (run (new_BFFInterpreter t))"
proof (rule run_invariant)
  show "halt_ok (new_BFFInterpreter t)"
    by (simp add: halt_ok_def)
qed (rule halt_ok_step)

lemma run_step_cap: "stepCount (run (new_BFFInterpreter t)) \<le> MAX_STEPS"
  using halt_ok_run [of t] by (simp add: halt_ok_def)

text \<open>
  C6. For every tape (of length \<open>2R\<close>), a full run of the interpreter from its initial
  state terminates: \<open>run\<close> is a total function and its result is halted. It has
  dispatched at most \<open>MAX_STEPS + 2R\<close> instructions (\<open>stepCount\<close> counts them, and
  \<open>run_step_cap\<close> bounds it by \<open>MAX_STEPS\<close> alone) and has halted by the step cap,
  the end of the tape or an unmatched bracket.
\<close>

theorem run_terminates_within_bound:
  "halted (run (new_BFFInterpreter t)) \<and>
   stepCount (run (new_BFFInterpreter t)) \<le> MAX_STEPS + length t \<and>
   haltReason (run (new_BFFInterpreter t))
     \<in> {Some max_steps, Some end_of_tape, Some unmatched_bracket}"
  using halt_ok_run [of t] run_halted [of "new_BFFInterpreter t"]
  by (simp add: halt_ok_def)

section \<open>Orientation of the write-back\<close>

text \<open>
  As stated, C1 fails for \<open>Population.runPair\<close>, which compares two compression costs and
  writes the halves back swapped when that is cheaper. In \<open>swap_example\<close> the pair
  \<open>(0, 8)\<close> runs the tape \<open>+,\<close> \<open>01 01\<close>, which writes twice and ends as
  \<open>,,\<close> \<open>01 01\<close>; afterwards region A at 0 holds the second half \<open>01 01\<close> and
  region B at 8 holds the first half \<open>,,\<close>.
\<close>

theorem writeback_orientation_counterexample:
  "0 < or0 (writes (snd (runPair swap_example (0, 8)))) \<and>
   tape (run (new_BFFInterpreter
     (combineTapes swap_example (getSlice swap_example 0) (getSlice swap_example 8)))) =
     [0x2C, 0x2C, 1, 1] \<and>
   region (soup (fst (runPair swap_example (0, 8)))) 0 2 = [1, 1] \<and>
   region (soup (fst (runPair swap_example (0, 8)))) 8 2 = [0x2C, 0x2C]"
  by (simp add: swap_example_tape swap_example_run swap_example_soup region_def)
     (simp add: swap_example_runPair or0_def)

text \<open>
  C1, amended. For every pair whose regions lie inside the soup and do not overlap, and
  every tape content: when a write-back occurs, the two halves of the tape after the
  execution go back to the two regions. The worker writes the first \<open>R\<close> bytes to
  region A and the next \<open>R\<close> bytes to region B, in that orientation, whenever the math
  or the copy count is positive. \<open>Population.runPair\<close> writes back whenever its write
  count is positive, in that orientation unless the swapped one has the strictly lower
  compression cost; then the second half goes to region A and the first to region B.
\<close>

theorem writeback_orientation:
  "(separate (soup p) (regionSize p) pair \<and> 0 < or0 (writes (snd (runPair p pair))) \<longrightarrow>
      (let final = tape (run (new_BFFInterpreter
                     (combineTapes p (getSlice p (fst pair)) (getSlice p (snd pair)))));
           left = take (regionSize p) final;
           right = drop (regionSize p) final;
           s' = soup (fst (runPair p pair))
       in if costSwap p pair left right < costNoSwap p pair left right
          then region s' (fst pair) (regionSize p) = right \<and>
               region s' (snd pair) (regionSize p) = left
          else region s' (fst pair) (regionSize p) = left \<and>
               region s' (snd pair) (regionSize p) = right)) \<and>
   (separate s R wpair \<and> worker_pair R result i wpair (s, tot) = Some (s', tot') \<and>
    (0 < getUint32 result (i * (28 + R * 2) + 12) \<or>
     0 < getUint32 result (i * (28 + R * 2) + 16)) \<longrightarrow>
      region s' (fst wpair) R =
        map (\<lambda>j. rd result (int (i * (28 + R * 2) + 28 + j))) [0..<R] \<and>
      region s' (snd wpair) R =
        map (\<lambda>j. rd result (int (i * (28 + R * 2) + 28 + R + j))) [0..<R])"
proof (intro conjI impI)
  assume h: "separate (soup p) (regionSize p) pair \<and> 0 < or0 (writes (snd (runPair p pair)))"
  let ?R = "regionSize p"
  let ?final = "tape (run (new_BFFInterpreter
                     (combineTapes p (getSlice p (fst pair)) (getSlice p (snd pair)))))"
  have len: "length ?final = 2 * ?R"
    by simp
  then have split: "splitTape p ?final = (take ?R ?final, drop ?R ?final)"
    by (rule splitTape_halves)
  have l: "length (take ?R ?final) = ?R" and r: "length (drop ?R ?final) = ?R"
    using len by simp_all
  from h have sep: "separate (soup p) ?R (fst pair, snd pair)"
    by simp
  from h have "fst (runPair p pair) =
      (if costSwap p pair (take ?R ?final) (drop ?R ?final)
          < costNoSwap p pair (take ?R ?final) (drop ?R ?final)
       then setSlice (setSlice p (fst pair) (drop ?R ?final)) (snd pair) (take ?R ?final)
       else setSlice (setSlice p (fst pair) (take ?R ?final)) (snd pair) (drop ?R ?final))"
    by (simp add: runPair_written split Let_def)
  then show "let final = ?final; left = take ?R final; right = drop ?R final;
           s' = soup (fst (runPair p pair))
       in if costSwap p pair left right < costNoSwap p pair left right
          then region s' (fst pair) ?R = right \<and> region s' (snd pair) ?R = left
          else region s' (fst pair) ?R = left \<and> region s' (snd pair) ?R = right"
    using setSlice_twice [OF sep r l] setSlice_twice [OF sep l r]
    by (simp add: Let_def)
next
  assume h: "separate s R wpair \<and> worker_pair R result i wpair (s, tot) = Some (s', tot') \<and>
    (0 < getUint32 result (i * (28 + R * 2) + 12) \<or>
     0 < getUint32 result (i * (28 + R * 2) + 16))"
  let ?off = "i * (28 + R * 2) + 28"
  from h have s': "s' = writeBack s R (fst wpair, snd wpair) result ?off"
    using worker_pair_written [of R result i wpair s tot s' tot'] by simp
  from h have sep: "separate s R (fst wpair, snd wpair)"
    by simp
  then have a: "0 \<le> fst wpair" "fst wpair + int R \<le> int (length s)"
    and b: "0 \<le> snd wpair" "snd wpair + int R \<le> int (length s)"
    by (simp_all add: separate_def)
  have len: "length s' = length s"
    by (simp add: s' writeBack_def length_for_loop)
  show "region s' (fst wpair) R = map (\<lambda>j. rd result (int (?off + j))) [0..<R]"
    by (rule region_eqI) (use a len writeBack_regions(1) [OF sep] in \<open>simp_all add: s'\<close>)
  show "region s' (snd wpair) R = map (\<lambda>j. rd result (int (?off + R + j))) [0..<R]"
    by (rule region_eqI) (use b len writeBack_regions(2) [OF sep] in \<open>simp_all add: s'\<close>)
qed


theorem writeback_orientation_witness:
  "separate (soup swap_example) (regionSize swap_example) (0, 8) \<and>
   0 < or0 (writes (snd (runPair swap_example (0, 8)))) \<and>
   costSwap swap_example (0, 8) [0x2C, 0x2C] [1, 1]
     < costNoSwap swap_example (0, 8) [0x2C, 0x2C] [1, 1] \<and>
   region (soup (fst (runPair swap_example (0, 8)))) 0 2 = [1, 1] \<and>
   region (soup (fst (runPair swap_example (0, 8)))) 8 2 = [0x2C, 0x2C] \<and>
   separate [0, 0, 0, 0] 1 (0, 2) \<and>
   worker_pair 1 worker_example 0 (0, 2) ([0, 0, 0, 0], no_totals) =
     Some ([7, 0, 9, 0],
           \<lparr>totalHead0 = 0, totalHead1 = 0, totalMath = 1, totalCopy = 0, totalLoop = 0\<rparr>) \<and>
   0 < getUint32 worker_example 12 \<and>
   region [7, 0, 9, 0] 0 1 = [7] \<and> region [7, 0, 9, 0] 2 1 = [9]"
proof -
  have sep: "separate (soup swap_example) (regionSize swap_example) (0, 8)"
    by (simp add: separate_def swap_example_fields)
  have w: "0 < or0 (writes (snd (runPair swap_example (0, 8))))"
    by (simp add: swap_example_runPair or0_def)
  have wsep: "separate [0, 0, 0, 0] 1 (0, 2)"
    by (simp add: separate_def)
  have math: "0 < getUint32 worker_example 12"
    by (simp add: getUint32_def worker_example_def)
  have rd: "rd worker_example 28 = 7" "rd worker_example 29 = 9"
    by (simp_all add: rd_def worker_example_def)
  from writeback_orientation [of swap_example "(0, 8)" "[0, 0, 0, 0]" 1 "(0, 2)"
      worker_example 0 no_totals "[7, 0, 9, 0]"
      "\<lparr>totalHead0 = 0, totalHead1 = 0, totalMath = 1, totalCopy = 0, totalLoop = 0\<rparr>"]
    sep w wsep math worker_example_pair
  show ?thesis
    by (simp add: swap_example_tape swap_example_run swap_example_costs swap_example_fields rd
        Let_def)
qed

section \<open>Tapes without instructions\<close>

text \<open>
  C3. For every tape of length \<open>2R\<close> (the two regions of a pair, one after the other)
  that contains no byte equal to any of the ten BFF opcodes, executing the pair returns
  \<open>steps = 0\<close> and the halt reason \<open>no_instructions\<close>; it reports no count, which its
  readers take as 0; and it leaves the tape and the soup as they were, since the
  interpreter is never started and nothing is written back.
\<close>

theorem no_instructions_short_circuit:
  assumes "\<forall>x \<in> set (combineTapes p (getSlice p (fst pair)) (getSlice p (snd pair))).
             byteToInstruction x = None"
  shows "runPair p pair =
           (p, \<lparr>steps = 0, reason = Some no_instructions, writes = None, jumps = None\<rparr>) \<and>
         or0 (writes (snd (runPair p pair))) = 0 \<and>
         or0 (jumps (snd (runPair p pair))) = 0 \<and>
         length (combineTapes p (getSlice p (fst pair)) (getSlice p (snd pair))) =
           2 * regionSize p"
proof -
  from assms
  have "\<not> hasInstructions (combineTapes p (getSlice p (fst pair)) (getSlice p (snd pair)))"
    by (simp add: hasInstructions_iff)
  then show ?thesis
    by (simp add: runPair_no_instructions or0_def)
qed

theorem no_instructions_short_circuit_witness:
  "combineTapes inert_example (getSlice inert_example 0) (getSlice inert_example 2) =
     [1, 2, 3, 4] \<and>
   byteToInstruction 1 = None \<and> byteToInstruction 2 = None \<and>
   byteToInstruction 3 = None \<and> byteToInstruction 4 = None \<and>
   runPair inert_example (0, 2) =
     (inert_example,
      \<lparr>steps = 0, reason = Some no_instructions, writes = None, jumps = None\<rparr>) \<and>
   soup (fst (runPair inert_example (0, 2))) = [1, 2, 3, 4]"
proof -
  have b: "byteToInstruction 1 = None" "byteToInstruction 2 = None"
    "byteToInstruction 3 = None" "byteToInstruction 4 = None"
    by (simp_all add: byteToInstruction_None instructions_def)
  then have h: "\<forall>x \<in> set (combineTapes inert_example (getSlice inert_example (fst (0, 2)))
                  (getSlice inert_example (snd (0, 2)))). byteToInstruction x = None"
    by (simp add: inert_example_tape)
  from no_instructions_short_circuit [OF h] b show ?thesis
    by (simp add: inert_example_fields inert_example_tape)
qed

section \<open>Executions without writes\<close>

text \<open>
  C4. For every tape and every execution: if the execution performed no math and no copy
  operation, the tape is identical to its input, and the soup bytes of both regions of
  the pair are unchanged because no write-back occurs. The interpreter counts math and
  copy operations together in \<open>writeCount\<close>, which gates the write-back of
  \<open>Population.runPair\<close>; the worker tests the two counters it reads from the result of
  \<open>execute_batch\<close>.
\<close>

theorem no_write_no_change:
  "(writeCount (run (new_BFFInterpreter t)) = 0 \<longrightarrow> tape (run (new_BFFInterpreter t)) = t) \<and>
   (or0 (writes (snd (runPair p pair))) = 0 \<longrightarrow> fst (runPair p pair) = p) \<and>
   (worker_pair R result i wpair (s, tot) = Some (s', tot') \<and>
    getUint32 result (i * (28 + R * 2) + 12) = 0 \<and>
    getUint32 result (i * (28 + R * 2) + 16) = 0 \<longrightarrow> s' = s)"
  using no_write_run [of t] runPair_no_writes [of p pair]
    worker_pair_gate [of R result i wpair s tot s' tot']
  by blast

theorem no_write_no_change_witness:
  "writeCount (run (new_BFFInterpreter [0x3E, 0x3C, 1, 1])) = 0 \<and>
   tape (run (new_BFFInterpreter [0x3E, 0x3C, 1, 1])) = [0x3E, 0x3C, 1, 1] \<and>
   or0 (writes (snd (runPair quiet_example (0, 2)))) = 0 \<and>
   fst (runPair quiet_example (0, 2)) = quiet_example \<and>
   worker_pair 1 worker_quiet 0 (0, 2) ([0, 0, 0, 0], no_totals) =
     Some ([0, 0, 0, 0],
           \<lparr>totalHead0 = 1, totalHead1 = 0, totalMath = 0, totalCopy = 0, totalLoop = 0\<rparr>) \<and>
   getUint32 worker_quiet 12 = 0 \<and> getUint32 worker_quiet 16 = 0"
proof -
  have w: "writeCount (run (new_BFFInterpreter [0x3E, 0x3C, 1, 1])) = 0"
    by (simp add: quiet_example_run)
  have r: "or0 (writes (snd (runPair quiet_example (0, 2)))) = 0"
    by (simp add: quiet_example_runPair or0_def)
  have c: "getUint32 worker_quiet 12 = 0" "getUint32 worker_quiet 16 = 0"
    by (simp_all add: getUint32_def worker_quiet_def)
  from no_write_no_change [of "[0x3E, 0x3C, 1, 1]" quiet_example "(0, 2)" 1 worker_quiet 0
      "(0, 2)" "[0, 0, 0, 0]" no_totals "[0, 0, 0, 0]"
      "\<lparr>totalHead0 = 1, totalHead1 = 0, totalMath = 0, totalCopy = 0, totalLoop = 0\<rparr>"]
    w r c worker_quiet_pair
  show ?thesis
    by simp
qed

section \<open>Bracket matching\<close>

text \<open>
  C5. Bracket matching never crosses the ends of the tape. When the instruction is a
  taken \<open>[\<close> (the byte under \<open>head0\<close> is 0) or a taken \<open>]\<close> (it is not 0), the result \<open>r\<close>
  of the scan is \<open>-1\<close> or a position of the tape. If \<open>r = -1\<close>, the nesting count of the
  specification is nonzero at every position between the bracket and the end of the tape
  in the direction of the scan, so no bracket there matches, and the interpreter halts
  with \<open>unmatched_bracket\<close> where it stands. Otherwise \<open>r\<close> is the position of the
  matching bracket, the first one where the nesting count is 0, with all nested pairs
  of brackets between skipped; it holds \<open>]\<close> for a scan forward and \<open>[\<close> backward, and
  the step leaves \<open>ip = r + 1\<close>, past it (which ends the run at the end of the tape if
  \<open>r\<close> was the last cell). The tape is not changed.
\<close>

theorem bracket_jump:
  assumes "\<not> halted s" and "stepCount s < MAX_STEPS" and "taken s d"
  shows "let r = findMatchingBracket (tape s) (ip s) d in
     (r = - 1 \<or> in_tape (tape s) r) \<and>
     (if r = - 1
      then (\<forall>n. (\<forall>m. 1 \<le> m \<and> m \<le> n \<longrightarrow> in_tape (tape s) (spec_ahead d (ip s) m)) \<longrightarrow>
                spec_nesting (tape s) d (ip s) n \<noteq> 0) \<and>
           halted (step s) \<and> haltReason (step s) = Some unmatched_bracket \<and>
           ip (step s) = ip s
      else (\<exists>n\<ge>1. r = spec_ahead d (ip s) n \<and>
                  spec_nesting (tape s) d (ip s) n = 0 \<and>
                  (\<forall>m<n. spec_nesting (tape s) d (ip s) m \<noteq> 0)) \<and>
           get (tape s) r = spec_match d \<and>
           ip (step s) = r + 1 \<and>
           (if r + 1 \<ge> size_tape (tape s)
            then halted (step s) \<and> haltReason (step s) = Some end_of_tape
            else \<not> halted (step s))) \<and>
     tape (step s) = tape s"
proof -
  let ?r = "findMatchingBracket (tape s) (ip s) d"
  have range: "?r = - 1 \<or> in_tape (tape s) ?r"
    unfolding findMatchingBracket_def by (rule scan_in_tape)
  have unmatched: "\<forall>n. (\<forall>m. 1 \<le> m \<and> m \<le> n \<longrightarrow> in_tape (tape s) (spec_ahead d (ip s) m)) \<longrightarrow>
                spec_nesting (tape s) d (ip s) n \<noteq> 0" if "?r = - 1"
    using that scan_unmatched [of 1 "tape s" d "ip s"]
    unfolding findMatchingBracket_def depth_after_nesting spec_ahead_delta by blast
  have matched: "(\<exists>n\<ge>1. ?r = spec_ahead d (ip s) n \<and>
                  spec_nesting (tape s) d (ip s) n = 0 \<and>
                  (\<forall>m<n. spec_nesting (tape s) d (ip s) m \<noteq> 0)) \<and>
           get (tape s) ?r = spec_match d" if "?r \<noteq> - 1"
    using that scan_matched [of 1 "tape s" d "ip s"]
    unfolding findMatchingBracket_def depth_after_nesting spec_ahead_delta closing_match
    by blast
  have halt: "halted (step s) \<and> haltReason (step s) = Some unmatched_bracket \<and>
           ip (step s) = ip s \<and> tape (step s) = tape s" if "?r = - 1"
    using that by (simp add: step_taken [OF assms] halt_unmatched_def)
  have jump: "ip (step s) = ?r + 1 \<and>
           (if ?r + 1 \<ge> size_tape (tape s)
            then halted (step s) \<and> haltReason (step s) = Some end_of_tape
            else \<not> halted (step s)) \<and> tape (step s) = tape s" if "?r \<noteq> - 1"
    using that assms(1)
    by (cases d) (simp_all add: step_taken [OF assms] advance_def Let_def)
  show ?thesis
    using range unmatched matched halt jump
    by (cases "?r = - 1") (simp_all add: Let_def)
qed

text \<open>
  Four runs. In \<open><[[]]\<close> the \<open>[\<close> at 1 jumps over the nested pair to the \<open>]\<close> at 4, not
  to the first \<open>]\<close>, at 3. In \<open>[<[]>]\<close> the \<open>]\<close> at 5 jumps back over the nested pair to
  the \<open>[\<close> at 0, not to the first \<open>[\<close>, at 2. In \<open><[[]\<close> the \<open>[\<close> at 1 has no match,
  though a \<open>]\<close> follows it. In \<open>]\<close> at 0 the scan backward leaves the tape at once.
\<close>

theorem bracket_jump_witness:
  "\<not> halted (step (new_BFFInterpreter [0x3C, 0x5B, 0x5B, 0x5D, 0x5D, 0])) \<and>
   stepCount (step (new_BFFInterpreter [0x3C, 0x5B, 0x5B, 0x5D, 0x5D, 0])) < MAX_STEPS \<and>
   taken (step (new_BFFInterpreter [0x3C, 0x5B, 0x5B, 0x5D, 0x5D, 0])) Forward \<and>
   ip (step (new_BFFInterpreter [0x3C, 0x5B, 0x5B, 0x5D, 0x5D, 0])) = 1 \<and>
   findMatchingBracket [0x3C, 0x5B, 0x5B, 0x5D, 0x5D, 0] 1 Forward = 4 \<and>
   spec_nesting [0x3C, 0x5B, 0x5B, 0x5D, 0x5D, 0] Forward 1 1 = 2 \<and>
   spec_nesting [0x3C, 0x5B, 0x5B, 0x5D, 0x5D, 0] Forward 1 2 = 1 \<and>
   spec_nesting [0x3C, 0x5B, 0x5B, 0x5D, 0x5D, 0] Forward 1 3 = 0 \<and>
   ip (step (step (new_BFFInterpreter [0x3C, 0x5B, 0x5B, 0x5D, 0x5D, 0]))) = 5 \<and>
   \<not> halted (step (step (new_BFFInterpreter [0x3C, 0x5B, 0x5B, 0x5D, 0x5D, 0]))) \<and>
   \<not> halted (step (step (step (step (new_BFFInterpreter [0x5B, 0x3C, 0x5B, 0x5D, 0x3E, 0x5D, 0]))))) \<and>
   stepCount (step (step (step (step (new_BFFInterpreter [0x5B, 0x3C, 0x5B, 0x5D, 0x3E, 0x5D, 0])))))
     < MAX_STEPS \<and>
   taken (step (step (step (step (new_BFFInterpreter [0x5B, 0x3C, 0x5B, 0x5D, 0x3E, 0x5D, 0]))))) Backward \<and>
   ip (step (step (step (step (new_BFFInterpreter [0x5B, 0x3C, 0x5B, 0x5D, 0x3E, 0x5D, 0]))))) = 5 \<and>
   findMatchingBracket [0x5B, 0x3C, 0x5B, 0x5D, 0x3E, 0x5D, 0] 5 Backward = 0 \<and>
   spec_nesting [0x5B, 0x3C, 0x5B, 0x5D, 0x3E, 0x5D, 0] Backward 5 2 = 2 \<and>
   spec_nesting [0x5B, 0x3C, 0x5B, 0x5D, 0x3E, 0x5D, 0] Backward 5 3 = 1 \<and>
   spec_nesting [0x5B, 0x3C, 0x5B, 0x5D, 0x3E, 0x5D, 0] Backward 5 5 = 0 \<and>
   ip (step (step (step (step (step (new_BFFInterpreter [0x5B, 0x3C, 0x5B, 0x5D, 0x3E, 0x5D, 0])))))) = 1 \<and>
   \<not> halted (step (step (step (step (step
       (new_BFFInterpreter [0x5B, 0x3C, 0x5B, 0x5D, 0x3E, 0x5D, 0])))))) \<and>
   \<not> halted (step (new_BFFInterpreter [0x3C, 0x5B, 0x5B, 0x5D, 0])) \<and>
   stepCount (step (new_BFFInterpreter [0x3C, 0x5B, 0x5B, 0x5D, 0])) < MAX_STEPS \<and>
   taken (step (new_BFFInterpreter [0x3C, 0x5B, 0x5B, 0x5D, 0])) Forward \<and>
   findMatchingBracket [0x3C, 0x5B, 0x5B, 0x5D, 0] 1 Forward = - 1 \<and>
   halted (step (step (new_BFFInterpreter [0x3C, 0x5B, 0x5B, 0x5D, 0]))) \<and>
   haltReason (step (step (new_BFFInterpreter [0x3C, 0x5B, 0x5B, 0x5D, 0]))) =
     Some unmatched_bracket \<and>
   ip (step (step (new_BFFInterpreter [0x3C, 0x5B, 0x5B, 0x5D, 0]))) = 1 \<and>
   \<not> halted (new_BFFInterpreter [0x5D, 0]) \<and>
   stepCount (new_BFFInterpreter [0x5D, 0]) < MAX_STEPS \<and>
   taken (new_BFFInterpreter [0x5D, 0]) Backward \<and>
   findMatchingBracket [0x5D, 0] 0 Backward = - 1 \<and>
   halted (step (new_BFFInterpreter [0x5D, 0])) \<and>
   haltReason (step (new_BFFInterpreter [0x5D, 0])) = Some unmatched_bracket \<and>
   ip (step (new_BFFInterpreter [0x5D, 0])) = 0"
proof -
  let ?s = "step (new_BFFInterpreter [0x3C, 0x5B, 0x5B, 0x5D, 0x5D, 0])"
  let ?b = "step (step (step (step (new_BFFInterpreter [0x5B, 0x3C, 0x5B, 0x5D, 0x3E, 0x5D, 0]))))"
  let ?n = "step (new_BFFInterpreter [0x3C, 0x5B, 0x5B, 0x5D, 0])"
  let ?u = "new_BFFInterpreter [0x5D, 0]"
  have s: "?s = \<lparr>tape = [0x3C, 0x5B, 0x5B, 0x5D, 0x5D, 0], ip = 1, head0 = 5, head1 = 0,
      stepCount = 1, writeCount = 0, loopJumps = 0, halted = False, haltReason = None\<rparr>"
    by (simp add: interpreter_eval tape_eval array_eval)
  have b: "?b = \<lparr>tape = [0x5B, 0x3C, 0x5B, 0x5D, 0x3E, 0x5D, 0], ip = 5, head0 = 0, head1 = 0,
      stepCount = 4, writeCount = 0, loopJumps = 0, halted = False, haltReason = None\<rparr>"
    by (simp add: interpreter_eval tape_eval array_eval)
  have n: "?n = \<lparr>tape = [0x3C, 0x5B, 0x5B, 0x5D, 0], ip = 1, head0 = 4, head1 = 0,
      stepCount = 1, writeCount = 0, loopJumps = 0, halted = False, haltReason = None\<rparr>"
    by (simp add: interpreter_eval tape_eval array_eval)
  have s1: "\<not> halted ?s" and s2: "stepCount ?s < MAX_STEPS" and s3: "taken ?s Forward"
    and s4: "ip ?s = 1"
    by (simp_all add: s MAX_STEPS_def taken_def openBracket_def tape_eval array_eval)
  have b1: "\<not> halted ?b" and b2: "stepCount ?b < MAX_STEPS" and b3: "taken ?b Backward"
    and b4: "ip ?b = 5"
    by (simp_all add: b MAX_STEPS_def taken_def closeBracket_def tape_eval array_eval)
  have n1: "\<not> halted ?n" and n2: "stepCount ?n < MAX_STEPS" and n3: "taken ?n Forward"
    by (simp_all add: n MAX_STEPS_def taken_def openBracket_def tape_eval array_eval)
  have u1: "\<not> halted ?u" and u2: "stepCount ?u < MAX_STEPS" and u3: "taken ?u Backward"
    by (simp_all add: MAX_STEPS_def taken_def closeBracket_def tape_eval array_eval)
  have f: "findMatchingBracket [0x3C, 0x5B, 0x5B, 0x5D, 0x5D, 0] 1 Forward = 4"
    "findMatchingBracket [0x5B, 0x3C, 0x5B, 0x5D, 0x3E, 0x5D, 0] 5 Backward = 0"
    "findMatchingBracket [0x3C, 0x5B, 0x5B, 0x5D, 0] 1 Forward = - 1"
    "findMatchingBracket [0x5D, 0] 0 Backward = - 1"
    by (simp_all add: interpreter_eval tape_eval array_eval)
  have c: "spec_nesting [0x3C, 0x5B, 0x5B, 0x5D, 0x5D, 0] Forward 1 1 = 2"
    "spec_nesting [0x3C, 0x5B, 0x5B, 0x5D, 0x5D, 0] Forward 1 2 = 1"
    "spec_nesting [0x3C, 0x5B, 0x5B, 0x5D, 0x5D, 0] Forward 1 3 = 0"
    "spec_nesting [0x5B, 0x3C, 0x5B, 0x5D, 0x3E, 0x5D, 0] Backward 5 2 = 2"
    "spec_nesting [0x5B, 0x3C, 0x5B, 0x5D, 0x3E, 0x5D, 0] Backward 5 3 = 1"
    "spec_nesting [0x5B, 0x3C, 0x5B, 0x5D, 0x3E, 0x5D, 0] Backward 5 5 = 0"
    by (simp_all add: spec_cells_def upt_eval tape_eval array_eval)
  from bracket_jump [OF s1 s2 s3] have "ip (step ?s) = 5 \<and> \<not> halted (step ?s)"
    by (simp add: s f size_tape_def)
  moreover from bracket_jump [OF b1 b2 b3] have "ip (step ?b) = 1 \<and> \<not> halted (step ?b)"
    by (simp add: b f size_tape_def)
  moreover from bracket_jump [OF n1 n2 n3]
  have "halted (step ?n) \<and> haltReason (step ?n) = Some unmatched_bracket \<and> ip (step ?n) = 1"
    by (simp add: n f)
  moreover from bracket_jump [OF u1 u2 u3]
  have "halted (step ?u) \<and> haltReason (step ?u) = Some unmatched_bracket \<and> ip (step ?u) = 0"
    by (simp add: f)
  ultimately show ?thesis
    using s1 s2 s3 s4 b1 b2 b3 b4 n1 n2 n3 u1 u2 u3 f c by simp
qed
section \<open>Initial state\<close>

lemma executeBatch_posted:
  "\<exists>new. posted (executeBatch pool ps h1 ms) = posted pool @ new \<and>
         list_all (\<lambda>m. head1Offset_msg m = h1 \<and> maxSteps_msg m = ms) new"
  by (simp add: executeBatch_def Let_def list_all_iff)

text \<open>
  As stated, C2 fails on the default and on \<open>head1\<close>. The constructor of
  \<open>PopulationWasm\<close> sets \<open>head1Offset = 32\<close> next to the default \<open>regionSize = 64\<close>, so
  the default is not \<open>R\<close>; and \<open>BFFInterpreter.reset\<close> has no \<open>head1Offset\<close>: on the
  tape of 128 cells it starts \<open>head1\<close> at 0, which is not \<open>32 mod 128\<close>.
\<close>

theorem initial_state_counterexample:
  "head1Offset default_PopulationWasm = 32 \<and>
   int (regionSize default_PopulationWasm) = 64 \<and>
   head1Offset default_PopulationWasm \<noteq> int (regionSize default_PopulationWasm) \<and>
   head1 (new_BFFInterpreter (replicate 128 0)) = 0 \<and>
   head1 (new_BFFInterpreter (replicate 128 0)) \<noteq>
     head1Offset default_PopulationWasm mod size_tape (replicate 128 0)"
  by (simp add: default_PopulationWasm_def new_PopulationWasm_def size_tape_def)

text \<open>
  C2, amended. For every pair execution by \<open>BFFInterpreter\<close>, the initial state is
  \<open>ip = 0\<close>, \<open>head0 = 0\<close> and \<open>head1 = 0\<close>, with all counters zero, \<open>halted\<close> false and
  no halt reason, and \<open>reset()\<close> restores exactly that state. \<open>PopulationWasm\<close> starts
  with \<open>head1Offset = 32\<close> whatever the region size, and hands its current
  \<open>head1Offset\<close> to the workers with every message of a batch; 64, the default region
  size, is the default of \<open>WorkerPool.executeBatch\<close> when the argument is left out.
\<close>

theorem initial_state:
  "ip (new_BFFInterpreter t) = 0 \<and> head0 (new_BFFInterpreter t) = 0 \<and>
   head1 (new_BFFInterpreter t) = 0 \<and> stepCount (new_BFFInterpreter t) = 0 \<and>
   writeCount (new_BFFInterpreter t) = 0 \<and> loopJumps (new_BFFInterpreter t) = 0 \<and>
   \<not> halted (new_BFFInterpreter t) \<and> haltReason (new_BFFInterpreter t) = None \<and>
   tape (new_BFFInterpreter t) = t \<and>
   reset s = new_BFFInterpreter (tape s) \<and>
   head1Offset (new_PopulationWasm w h r) = 32 \<and>
   list_all (\<lambda>m. head1Offset_msg m = head1Offset p)
     (drop (length (posted (workerPool p))) (posted (workerPool (dispatch p)))) \<and>
   list_all (\<lambda>m. head1Offset_msg m = 64)
     (drop (length (posted pool)) (posted (executeBatch_default pool ps)))"
proof -
  have "reset s = new_BFFInterpreter (tape s)"
    by (simp add: reset_def new_BFFInterpreter_def)
  moreover have "list_all (\<lambda>m. head1Offset_msg m = h1)
     (drop (length (posted q)) (posted (executeBatch q ps' h1 ms)))" for q ps' h1 ms
    using executeBatch_posted [of q ps' h1 ms] by (auto simp: list_all_iff)
  ultimately show ?thesis
    by (simp add: new_PopulationWasm_def dispatch_def Let_def executeBatch_default_def)
qed

section \<open>Selected pairs\<close>

text \<open>
  C8. Every pair \<open>(a, b)\<close> returned by pair selection satisfies \<open>|a - b| \<ge> R\<close>, so the
  two regions do not overlap, and both starts are multiples of the alignment with
  \<open>0 \<le> start\<close> and \<open>start + R \<le> SOUP_SIZE\<close>: for \<open>PopulationWasm\<close> with every
  positive alignment and every locality setting, and for \<open>Population\<close>, whose alignment
  is the region size. A region fits into the soup, the soup has fewer than \<open>2 ^ 53\<close>
  bytes, as every typed array has, and \<open>Math.random()\<close> returns doubles of \<open>[0, 1)\<close>,
  which the selection multiplies as doubles.
\<close>

theorem selected_pairs_separate:
  "(0 < alignment p \<and> regionSize p \<le> length (soup p) \<and> length (soup p) < 2 ^ 53 \<and>
    unit_interval rs \<and> selectRandomPair_wasm p rs = Some ((a, b), rs') \<longrightarrow>
      separate (soup p) (regionSize p) (a, b) \<and> alignment p dvd a \<and> alignment p dvd b) \<and>
   (0 < regionSize q \<and> regionSize q \<le> length (soup q) \<and> length (soup q) < 2 ^ 53 \<and>
    unit_interval us \<and> selectRandomPair q us = Some ((c, d), us') \<longrightarrow>
      separate (soup q) (regionSize q) (c, d) \<and>
      int (regionSize q) dvd c \<and> int (regionSize q) dvd d)"
  using selectRandomPair_wasm_sound [of p rs a b rs'] selectRandomPair_sound [of q us c d us']
  by (simp add: separate_def)

theorem selected_pairs_separate_witness:
  "0 < alignment wasm_example \<and> regionSize wasm_example \<le> length (soup wasm_example) \<and>
   length (soup wasm_example) < 2 ^ 53 \<and>
   unit_interval [draw_zero, draw_zero, draw_three_quarters] \<and>
   selectRandomPair_wasm wasm_example [draw_zero, draw_zero, draw_three_quarters] =
     Some ((0, 6), []) \<and>
   separate (soup wasm_example) (regionSize wasm_example) (0, 6) \<and>
   alignment wasm_example dvd 0 \<and> alignment wasm_example dvd 6 \<and>
   0 < alignment local_example \<and> regionSize local_example \<le> length (soup local_example) \<and>
   length (soup local_example) < 2 ^ 53 \<and>
   unit_interval [draw_half, draw_half, draw_zero] \<and>
   selectRandomPair_wasm local_example [draw_half, draw_half, draw_zero] =
     Some ((100, 98), []) \<and>
   separate (soup local_example) (regionSize local_example) (100, 98) \<and>
   alignment local_example dvd 100 \<and> alignment local_example dvd 98 \<and>
   0 < alignment seven_example \<and> regionSize seven_example \<le> length (soup seven_example) \<and>
   length (soup seven_example) < 2 ^ 53 \<and>
   unit_interval [four_sevenths, draw_zero] \<and>
   value_of four_sevenths * 7 < 4 \<and>
   random_times four_sevenths 7 = 4 \<and>
   selectRandomPair_wasm seven_example [four_sevenths, draw_zero] = Some ((8, 0), []) \<and>
   separate (soup seven_example) (regionSize seven_example) (8, 0) \<and>
   alignment seven_example dvd 8 \<and> alignment seven_example dvd 0 \<and>
   0 < regionSize quiet_example \<and> regionSize quiet_example \<le> length (soup quiet_example) \<and>
   length (soup quiet_example) < 2 ^ 53 \<and>
   unit_interval [draw_zero, draw_zero, draw_half] \<and>
   selectRandomPair quiet_example [draw_zero, draw_zero, draw_half] = Some ((0, 2), []) \<and>
   separate (soup quiet_example) (regionSize quiet_example) (0, 2) \<and>
   int (regionSize quiet_example) dvd 0 \<and> int (regionSize quiet_example) dvd 2"
proof -
  have w: "0 < alignment wasm_example" "regionSize wasm_example \<le> length (soup wasm_example)"
    "length (soup wasm_example) < 2 ^ 53"
    by (simp_all add: wasm_example_fields)
  have l: "0 < alignment local_example" "regionSize local_example \<le> length (soup local_example)"
    "length (soup local_example) < 2 ^ 53"
    by (simp_all add: local_example_fields)
  have s: "0 < alignment seven_example" "regionSize seven_example \<le> length (soup seven_example)"
    "length (soup seven_example) < 2 ^ 53"
    by (simp_all add: seven_example_fields)
  have q: "0 < regionSize quiet_example" "regionSize quiet_example \<le> length (soup quiet_example)"
    "length (soup quiet_example) < 2 ^ 53"
    by (simp_all add: quiet_example_fields)
  have u: "unit_interval [draw_zero, draw_zero, draw_three_quarters]"
    "unit_interval [draw_half, draw_half, draw_zero]"
    "unit_interval [four_sevenths, draw_zero]"
    "unit_interval [draw_zero, draw_zero, draw_half]"
    by (simp_all add: unit_interval_def double01_def four_sevenths_def random_eval)
  have r: "value_of four_sevenths * 7 < 4" "random_times four_sevenths 7 = 4"
    by (simp_all add: four_sevenths_def random_eval)
  from selected_pairs_separate [of wasm_example "[draw_zero, draw_zero, draw_three_quarters]"
      0 6 "[]" quiet_example "[draw_zero, draw_zero, draw_half]" 0 2 "[]"]
    selected_pairs_separate [of local_example "[draw_half, draw_half, draw_zero]" 100 98 "[]"
      quiet_example "[draw_zero, draw_zero, draw_half]" 0 2 "[]"]
    selected_pairs_separate [of seven_example "[four_sevenths, draw_zero]" 8 0 "[]"
      quiet_example "[draw_zero, draw_zero, draw_half]" 0 2 "[]"]
    w l s q u r wasm_example_pair local_example_pair seven_example_pair quiet_example_pair
  show ?thesis
    by simp
qed
section \<open>Mutation\<close>

text \<open>
  As stated, C9 fails for \<open>PopulationWasm.soupStep\<close>: it calls \<open>mutateSelected\<close> right
  after it has handed the batch to the pool, without waiting for the promise. In
  \<open>wasm_example\<close> one step selects the pair \<open>(0, 6)\<close> and posts it to the worker; when
  the step returns, the first byte of the soup has been replaced by 128 and the batch
  is still pending (\<open>pendingExecutions\<close> is 1 and goes back to 0 only in
  \<open>batchSettled\<close>, the callback of the promise).
\<close>

theorem mutation_before_completion_counterexample:
  "soupStep_wasm wasm_example step_draws =
     Some (wasm_example\<lparr>currentPairs := [(0, 6)], pairCount := 1, pendingExecutions := 1,
        workerPool := \<lparr>numWorkers = 1, ready = True,
          posted = [\<lparr>worker = 0, pairs = [(0, 6)], head1Offset_msg = 2,
                     maxSteps_msg = 8192\<rparr>]\<rparr>,
        soup := [128, 2, 3, 4, 5, 6, 7, 8]\<rparr>, []) \<and>
   pendingExecutions wasm_example = 0 \<and>
   pendingExecutions (fst (the (soupStep_wasm wasm_example step_draws))) = 1 \<and>
   pendingExecutions (batchSettled (fst (the (soupStep_wasm wasm_example step_draws)))) = 0 \<and>
   soup wasm_example = [1, 2, 3, 4, 5, 6, 7, 8] \<and>
   soup (fst (the (soupStep_wasm wasm_example step_draws))) = [128, 2, 3, 4, 5, 6, 7, 8]"
  by (simp add: wasm_example_step batchSettled_def) (simp add: wasm_example_def)

text \<open>
  C9, amended. In every step, mutation is applied by the driver, by \<open>mutateSelected\<close>.
  When \<open>PopulationWasm.soupStep\<close> returns, the soup is mutated and the batch of the step
  is dispatched and still pending: its messages are posted and \<open>pendingExecutions\<close>
  counts it; the step does not wait for the pool to complete it. \<open>Population.soupStep\<close>
  mutates the soup that its pairs have left after they have all run. In both, the
  mutation is that of the specification, with the draws in the place of probability:
  for each selected pair in turn, each byte of region \<open>a\<close> and then of region \<open>b\<close> is
  replaced if the draw made for it is below \<open>mutationRate\<close>, by 256 times the next draw
  rounded down, and is kept otherwise; when the rate is not positive no byte is replaced
  and no draw is made. So only bytes of the selected regions change, and the length of
  the soup stays. No mutation occurs inside the interpreter: the pairs of a step are
  selected and run without any draw but those of the selection, and a step of the
  interpreter changes the tape only if the instruction is \<open>+\<close>, \<open>-\<close>, \<open>.\<close> or \<open>,\<close>,
  which it counts as a write.
\<close>

theorem mutation_after_dispatch:
  "(pendingExecutions p < maxPendingExecutions p \<and> soupStep_wasm p rs = Some (p', rs') \<longrightarrow>
      (\<exists>p1 rs1.
         generatePairs (pairsPerStep p) (p\<lparr>currentPairs := []\<rparr>) rs = Some (p1, rs1) \<and>
         soup p1 = soup p \<and> currentPairs p' = currentPairs p1 \<and>
         (if 0 < mutationRate p
          then spec_mutate (mutationRate p)
                 (spec_targets (currentPairs p') (regionSize p) (length (soup p)))
                 (soup p) rs1 = Some (soup p', rs')
          else soup p' = soup p \<and> rs' = rs1)) \<and>
      pendingExecutions p' = pendingExecutions p + 1 \<and>
      workerPool p' =
        executeBatch (workerPool p) (currentPairs p') (head1Offset p) (maxSteps p) \<and>
      length (soup p') = length (soup p) \<and>
      (\<forall>k<length (soup p). soup p' ! k \<noteq> soup p ! k \<longrightarrow>
         selected (currentPairs p') (regionSize p) (length (soup p)) k)) \<and>
   (soupStep q us = Some (q', results, us') \<longrightarrow>
      (\<exists>ps us1.
         selectPairs (pairsPerStep q) q us = Some (ps, us1) \<and> currentPairs q' = ps \<and>
         (if 0 < mutationRate q
          then spec_mutate (mutationRate q) (spec_targets ps (regionSize q) (length (soup q)))
                 (soup (runAll ps (q\<lparr>currentPairs := []\<rparr>))) us1 = Some (soup q', us')
          else soup q' = soup (runAll ps (q\<lparr>currentPairs := []\<rparr>)) \<and> us' = us1) \<and>
         (\<forall>k<length (soup q).
            soup q' ! k \<noteq> soup (runAll ps (q\<lparr>currentPairs := []\<rparr>)) ! k \<longrightarrow>
            selected ps (regionSize q) (length (soup q)) k))) \<and>
   (tape (step s) \<noteq> tape s \<longrightarrow> writes_tape s \<and> writeCount (step s) = writeCount s + 1)"
  using soupStep_wasm_mutation [of p rs p' rs'] soupStep_wasm_frame(1-4) [of p rs p' rs']
    soupStep_mutation [of q us q' results us'] step_tape_changed [of s]
  by blast

theorem mutation_after_dispatch_witness:
  "pendingExecutions wasm_example < maxPendingExecutions wasm_example \<and>
   soupStep_wasm wasm_example step_draws =
     Some (wasm_example\<lparr>currentPairs := [(0, 6)], pairCount := 1, pendingExecutions := 1,
        workerPool := \<lparr>numWorkers = 1, ready = True,
          posted = [\<lparr>worker = 0, pairs = [(0, 6)], head1Offset_msg = 2,
                     maxSteps_msg = 8192\<rparr>]\<rparr>,
        soup := [128, 2, 3, 4, 5, 6, 7, 8]\<rparr>, []) \<and>
   pendingExecutions (fst (the (soupStep_wasm wasm_example step_draws))) =
     pendingExecutions wasm_example + 1 \<and>
   length (soup (fst (the (soupStep_wasm wasm_example step_draws)))) =
     length (soup wasm_example) \<and>
   0 < mutationRate wasm_example \<and>
   generatePairs (pairsPerStep wasm_example) (wasm_example\<lparr>currentPairs := []\<rparr>) step_draws =
     Some (wasm_example\<lparr>currentPairs := [(0, 6)]\<rparr>,
           [draw_quarter, draw_half, draw_three_quarters, draw_three_quarters,
            draw_three_quarters]) \<and>
   spec_targets [(0, 6)] 2 8 = [0, 1, 6, 7] \<and>
   spec_decisions (1 / 2) 4
     [draw_quarter, draw_half, draw_three_quarters, draw_three_quarters,
      draw_three_quarters] = Some ([Some 128, None, None, None], []) \<and>
   spec_mutate (1 / 2) [0, 1, 6, 7] [1, 2, 3, 4, 5, 6, 7, 8]
     [draw_quarter, draw_half, draw_three_quarters, draw_three_quarters,
      draw_three_quarters] = Some ([128, 2, 3, 4, 5, 6, 7, 8], []) \<and>
   selected [(0, 6)] 2 8 0 \<and>
   soupStep legacy_example legacy_draws =
     Some (legacy_example\<lparr>currentPairs := [(0, 2)], soup := [128, 0x3C, 1, 1], pairCount := 1\<rparr>,
           [\<lparr>steps = 4, reason = Some end_of_tape, writes = Some 0, jumps = Some 0\<rparr>], []) \<and>
   0 < mutationRate legacy_example \<and>
   selectPairs (pairsPerStep legacy_example) legacy_example legacy_draws =
     Some ([(0, 2)],
           [draw_quarter, draw_half, draw_three_quarters, draw_three_quarters,
            draw_three_quarters]) \<and>
   soup (runAll [(0, 2)] (legacy_example\<lparr>currentPairs := []\<rparr>)) = [0x3E, 0x3C, 1, 1] \<and>
   spec_targets [(0, 2)] 2 4 = [0, 1, 2, 3] \<and>
   spec_mutate (1 / 2) [0, 1, 2, 3] [0x3E, 0x3C, 1, 1]
     [draw_quarter, draw_half, draw_three_quarters, draw_three_quarters,
      draw_three_quarters] = Some ([128, 0x3C, 1, 1], []) \<and>
   selected [(0, 2)] 2 4 0 \<and>
   tape (step (new_BFFInterpreter [0x2B, 0])) = [0x2C, 0] \<and>
   writes_tape (new_BFFInterpreter [0x2B, 0]) \<and>
   writeCount (step (new_BFFInterpreter [0x2B, 0])) =
     writeCount (new_BFFInterpreter [0x2B, 0]) + 1"
proof -
  let ?ds = "[draw_quarter, draw_half, draw_three_quarters, draw_three_quarters,
      draw_three_quarters]"
  let ?p' = "wasm_example\<lparr>currentPairs := [(0, 6)], pairCount := 1, pendingExecutions := 1,
        workerPool := \<lparr>numWorkers = 1, ready = True,
          posted = [\<lparr>worker = 0, pairs = [(0, 6)], head1Offset_msg = 2,
                     maxSteps_msg = 8192\<rparr>]\<rparr>,
        soup := [128, 2, 3, 4, 5, 6, 7, 8]\<rparr>"
  let ?s = "new_BFFInterpreter [0x2B, 0]"
  have lt: "pendingExecutions wasm_example < maxPendingExecutions wasm_example"
    and rate: "0 < mutationRate wasm_example" "0 < mutationRate legacy_example"
    by (simp_all add: wasm_example_def legacy_example_def)
  have sel: "selected [(0, 6)] 2 8 0" "selected [(0, 2)] 2 4 0"
    by (simp_all add: selected_def upt_eval js_rem_def)
  have targets: "spec_targets [(0, 6)] 2 8 = [0, 1, 6, 7]"
    "spec_targets [(0, 2)] 2 4 = [0, 1, 2, 3]"
    by (simp_all add: spec_targets_def upt_eval js_rem_def)
  have decisions: "spec_decisions (1 / 2) 4 ?ds = Some ([Some 128, None, None, None], [])"
    by (simp add: spec_decisions_numeral random_eval)
  have mutate: "spec_mutate (1 / 2) [0, 1, 6, 7] [1, 2, 3, 4, 5, 6, 7, 8] ?ds =
      Some ([128, 2, 3, 4, 5, 6, 7, 8], [])"
    "spec_mutate (1 / 2) [0, 1, 2, 3] [0x3E, 0x3C, 1, 1] ?ds = Some ([128, 0x3C, 1, 1], [])"
    by (simp_all add: spec_mutate_Cons spec_mutate_Nil wr_def random_eval)
  have pairs: "selectPairs (pairsPerStep legacy_example) legacy_example legacy_draws =
      Some ([(0, 2)], ?ds)"
  proof -
    have "pairsPerStep legacy_example = Suc 0"
      by (simp add: legacy_example_def quiet_example_def)
    moreover have "selectRandomPair legacy_example legacy_draws = Some ((0, 2), ?ds)"
      using legacy_example_select
        selectRandomPair_cong [of "legacy_example\<lparr>currentPairs := []\<rparr>" legacy_example]
      by simp
    ultimately show ?thesis
      by simp
  qed
  have ran: "soup (runAll [(0, 2)] (legacy_example\<lparr>currentPairs := []\<rparr>)) = [0x3E, 0x3C, 1, 1]"
    by (simp add: runAll_def legacy_example_runPair) (simp add: legacy_example_def quiet_example_def)
  have tp: "tape (step ?s) = [0x2C, 0]"
    by (simp add: interpreter_eval tape_eval array_eval)
  then have changed: "tape (step ?s) \<noteq> tape ?s"
    by simp
  from mutation_after_dispatch [of wasm_example step_draws ?p' "[]"
      legacy_example legacy_draws
      "legacy_example\<lparr>currentPairs := [(0, 2)], soup := [128, 0x3C, 1, 1], pairCount := 1\<rparr>"
      "[\<lparr>steps = 4, reason = Some end_of_tape, writes = Some 0, jumps = Some 0\<rparr>]" "[]" ?s]
    lt wasm_example_step legacy_example_step changed
  have "pendingExecutions ?p' = pendingExecutions wasm_example + 1 \<and>
        length (soup ?p') = length (soup wasm_example) \<and>
        writes_tape ?s \<and> writeCount (step ?s) = writeCount ?s + 1"
    by blast
  with lt rate sel targets decisions mutate pairs ran tp wasm_example_generate show ?thesis
    by (simp only: wasm_example_step legacy_example_step option.sel fst_conv simp_thms)
qed
end
